theory Spec2Isabelle
  imports Main "HOL-Library.Sublist" "HOL-Library.AList"
begin

section \<open>JavaScript strings and the platform URL parser\<close>

text \<open>
  JavaScript strings are modelled as \<^typ>\<open>string\<close>, one character per code unit;
  \<open>length\<close> is the source's \<^verbatim>\<open>.length\<close>.  \<^verbatim>\<open>String.prototype.includes\<close> is the contiguous-substring test,
  \<^verbatim>\<open>endsWith\<close> the suffix test, \<^verbatim>\<open>toUpperCase\<close> maps the letters a..z to A..Z
  (HTTP methods are ASCII tokens; other characters are left as they are).
\<close>

definition js_includes :: "string \<Rightarrow> string \<Rightarrow> bool" where
  "js_includes s searchString = sublist searchString s"

definition endsWith :: "string \<Rightarrow> string \<Rightarrow> bool" where
  "endsWith s searchString = suffix searchString s"

definition toUpperCase_char :: "char \<Rightarrow> char" where
  "toUpperCase_char c =
     (let n = (of_char c :: nat) in if 97 \<le> n \<and> n \<le> 122 then char_of (n - 32) else c)"

definition toUpperCase :: "string \<Rightarrow> string" where
  "toUpperCase s = map toUpperCase_char s"

text \<open>
  \<^verbatim>\<open>new URL(url)\<close> is the platform's parser, not code of this repository.  The
  program reads three things from the object it returns: \<^verbatim>\<open>hostname\<close>,
  \<^verbatim>\<open>pathname\<close> and \<^verbatim>\<open>searchParams\<close> (the decoded name/value pairs of the query
  string, in order).  The parser is a parameter \<open>P\<close> of every function that calls it;
  \<open>P s = None\<close> stands for the \<^verbatim>\<open>TypeError\<close> the constructor throws.
\<close>

record URL =
  hostname :: string
  pathname :: string
  searchParams :: "(string \<times> string) list"

type_synonym url_parser = "string \<Rightarrow> URL option"

text \<open>\<^verbatim>\<open>searchParams.has(name)\<close>\<close>

definition has :: "(string \<times> string) list \<Rightarrow> string \<Rightarrow> bool" where
  "has params name = (name \<in> set (map fst params))"

subsection \<open>A reference parser for plain http(s) URLs\<close>

text \<open>
  To run the model on concrete inputs a parser instance is needed.  \<open>plain_url\<close> reads
  strings of the shape \<^verbatim>\<open>http(s)://host/path?query#fragment\<close> with a host made of
  the characters a..z, \<open>.\<close> and \<open>-\<close>, and rejects everything else.  It does no
  percent-decoding, no dot-segment removal, no port or userinfo handling; it is only
  applied below to URLs on which none of these matter, and to strings without a scheme,
  which the platform parser rejects as well.
\<close>

definition host_char :: "char \<Rightarrow> bool" where
  "host_char c = (let n = (of_char c :: nat) in (97 \<le> n \<and> n \<le> 122) \<or> n = 45 \<or> n = 46)"

fun split_on :: "char \<Rightarrow> string \<Rightarrow> string list" where
  "split_on c [] = [[]]"
| "split_on c (x # xs) =
     (if x = c then [] # split_on c xs
      else (case split_on c xs of [] \<Rightarrow> [[x]] | w # ws \<Rightarrow> (x # w) # ws))"

definition parse_pair :: "string \<Rightarrow> string \<times> string" where
  "parse_pair kv = (takeWhile (\<lambda>c. c \<noteq> CHR ''='') kv, drop 1 (dropWhile (\<lambda>c. c \<noteq> CHR ''='') kv))"

definition parse_query :: "string \<Rightarrow> (string \<times> string) list" where
  "parse_query q = map parse_pair (filter (\<lambda>kv. kv \<noteq> []) (split_on CHR ''&'' q))"

definition strip_scheme :: "string \<Rightarrow> string option" where
  "strip_scheme s =
     (if prefix ''https://'' s then Some (drop 8 s)
      else if prefix ''http://'' s then Some (drop 7 s)
      else None)"

definition plain_url :: url_parser where
  "plain_url s =
     (case strip_scheme s of
        None \<Rightarrow> None
      | Some rest \<Rightarrow>
          (let no_fragment = takeWhile (\<lambda>c. c \<noteq> CHR ''#'') rest;
               before_query = takeWhile (\<lambda>c. c \<noteq> CHR ''?'') no_fragment;
               query = drop 1 (dropWhile (\<lambda>c. c \<noteq> CHR ''?'') no_fragment);
               host = takeWhile (\<lambda>c. c \<noteq> CHR ''/'') before_query;
               path = dropWhile (\<lambda>c. c \<noteq> CHR ''/'') before_query
           in if host = [] \<or> \<not> list_all host_char host then None
              else Some \<lparr> hostname = host,
                          pathname = (if path = [] then ''/'' else path),
                          searchParams = parse_query query \<rparr>))"

section \<open>Data model (types/index.ts)\<close>

record NetworkRequest =
  req_method :: string
  req_url :: string
  req_headers :: "(string \<times> string) list"
  req_body :: "string option"
  req_timestamp :: nat

record NetworkResponse =
  res_status :: nat
  res_statusText :: string
  res_headers :: "(string \<times> string) list"
  res_body :: string
  res_contentType :: string
  res_timestamp :: nat

record NetworkLogEntry =
  entry_id :: string
  request :: NetworkRequest
  response :: NetworkResponse
  resourceType :: string
  isBffBlockApi :: bool

type_synonym NetworkLogCollection = "NetworkLogEntry list"

text \<open>\<^verbatim>\<open>Record<string, string>\<close>: an association list; assigning to a key replaces
  its value in place or appends the key (\<^const>\<open>AList.update\<close>).  (JavaScript lists
  integer-like keys first; that reordering is not represented, and no property below
  depends on the order of the keys.)\<close>

type_synonym string_record = "(string \<times> string) list"

record ProcessedApiData =
  method' :: string
  url :: string
  responseBody :: string
  queryParams :: string_record
  pathParams :: string_record

type_synonym ProcessedApiCollection = "ProcessedApiData list"

datatype ErrorCategory = CONFIG | NETWORK | AI_API | FILE_SYSTEM | VALIDATION | BROWSER | USER_INPUT

text \<open>\<^verbatim>\<open>AppError\<close>; its \<^verbatim>\<open>timestamp\<close> (\<^verbatim>\<open>Date.now()\<close>) and \<^verbatim>\<open>originalError\<close>
  are read by no code modelled here and are left out.\<close>

record AppError =
  category :: ErrorCategory
  code :: string
  message :: string
  details :: "string option"

text \<open>
  What a \<^verbatim>\<open>catch\<close> clause can receive: a structured \<^verbatim>\<open>AppError\<close> (a plain object
  literal, not an instance of \<^verbatim>\<open>Error\<close>) or a native \<^verbatim>\<open>Error\<close> with its message.
  \<open>errorMessageOf\<close> is the expression
  \<^verbatim>\<open>error instanceof Error ? error.message : String(error)\<close>.
\<close>

datatype thrown = ThrownAppError AppError | ThrownError string

fun errorMessageOf :: "thrown \<Rightarrow> string" where
  "errorMessageOf (ThrownError m) = m"
| "errorMessageOf (ThrownAppError e) = ''[object Object]''"

section \<open>Exchange classifier\<close>

text \<open>browserController.ts, \<^verbatim>\<open>isBffBlockApiPattern(url)\<close>\<close>

definition isBffBlockApiPattern_url :: "url_parser \<Rightarrow> string \<Rightarrow> bool" where
  "isBffBlockApiPattern_url P u =
     (case P u of
        None \<Rightarrow> False
      | Some urlObj \<Rightarrow> js_includes (pathname urlObj) ''/blocks'' \<and> has (searchParams urlObj) ''keys'')"

text \<open>aiGenerator.ts (DataProcessor), \<^verbatim>\<open>isBffBlockApiPattern(logEntry)\<close>\<close>

definition isBffBlockApiPattern :: "url_parser \<Rightarrow> NetworkLogEntry \<Rightarrow> bool" where
  "isBffBlockApiPattern P logEntry =
     (case P (req_url (request logEntry)) of
        None \<Rightarrow> False
      | Some urlObj \<Rightarrow> js_includes (pathname urlObj) ''/blocks'' \<and> has (searchParams urlObj) ''keys'')"

section \<open>Exchange filter: host scoping\<close>

text \<open>browserController.ts, \<^verbatim>\<open>isHostAllowed(url)\<close>; \<open>allowedHosts\<close> is
  \<^verbatim>\<open>config.filter.allowed_hosts\<close>.\<close>

definition isHostAllowed :: "url_parser \<Rightarrow> string list \<Rightarrow> string \<Rightarrow> bool" where
  "isHostAllowed P allowedHosts u =
     (if length allowedHosts = 0 then True
      else (case P u of
              None \<Rightarrow> False
            | Some urlObj \<Rightarrow>
                list_ex (\<lambda>allowedHost. hostname urlObj = allowedHost
                                      \<or> endsWith (hostname urlObj) (''.'' @ allowedHost))
                        allowedHosts))"

section \<open>Endpoint normalizer (DataProcessor, aiGenerator.ts)\<close>

record DataProcessingOptions =
  mergeDuplicates :: bool
  prioritizeBffApis :: bool
  maxApis :: int
  includeHeaders :: bool

text \<open>The constructor's defaults.\<close>

definition defaultOptions :: DataProcessingOptions where
  "defaultOptions =
     \<lparr> mergeDuplicates = True, prioritizeBffApis = True, maxApis = 50, includeHeaders = False \<rparr>"

record DataProcessingResult =
  success :: bool
  processedData :: ProcessedApiCollection
  totalLogs :: nat
  bffApiCount :: nat
  uniqueEndpoints :: nat
  error :: "string option"

record EndpointMergeInfo =
  endpointKey :: string
  logs :: "NetworkLogEntry list"
  group_isBffBlockApi :: bool

definition createProcessingError :: "string \<Rightarrow> string \<Rightarrow> string option \<Rightarrow> AppError" where
  "createProcessingError c m d = \<lparr> category = VALIDATION, code = c, message = m, details = d \<rparr>"

text \<open>\<^verbatim>\<open>extractQueryParams\<close>: \<^verbatim>\<open>params[key] = value\<close> for every pair of
  \<^verbatim>\<open>searchParams\<close>, in order; \<^verbatim>\<open>{}\<close> when the constructor throws.\<close>

definition extractQueryParams :: "url_parser \<Rightarrow> string \<Rightarrow> string_record" where
  "extractQueryParams P u =
     (case P u of
        None \<Rightarrow> []
      | Some urlObj \<Rightarrow> fold (\<lambda>(key, value) params. AList.update key value params) (searchParams urlObj) [])"

definition extractPathParams :: "string \<Rightarrow> string_record" where
  "extractPathParams u = []"

definition createEndpointKey :: "url_parser \<Rightarrow> NetworkLogEntry \<Rightarrow> string" where
  "createEndpointKey P logEntry =
     (case P (req_url (request logEntry)) of
        Some urlObj \<Rightarrow>
          toUpperCase (req_method (request logEntry)) @ '' '' @ hostname urlObj @ pathname urlObj
      | None \<Rightarrow> req_method (request logEntry) @ '' '' @ req_url (request logEntry))"

text \<open>
  \<^verbatim>\<open>groupLogsByEndpoint\<close>.  The \<^verbatim>\<open>Map<string, EndpointMergeInfo>\<close> iterates in
  insertion order, so it is an association list: a new key is appended, an existing
  entry is changed where it stands.  \<open>group_step\<close> is the body of the \<^verbatim>\<open>forEach\<close>.
\<close>

definition group_step ::
  "url_parser \<Rightarrow> NetworkLogEntry \<Rightarrow> (string \<times> EndpointMergeInfo) list \<Rightarrow> (string \<times> EndpointMergeInfo) list"
where
  "group_step P log endpointGroups =
     (let key = createEndpointKey P log;
          isBff = isBffBlockApiPattern P log
      in case map_of endpointGroups key of
           Some existing \<Rightarrow>
             AList.update key
               (existing\<lparr> logs := logs existing @ [log],
                          group_isBffBlockApi := group_isBffBlockApi existing \<or> isBff \<rparr>)
               endpointGroups
         | None \<Rightarrow>
             endpointGroups @
               [(key, \<lparr> endpointKey = key, logs = [log], group_isBffBlockApi = isBff \<rparr>)])"

definition groupLogsByEndpoint ::
  "url_parser \<Rightarrow> NetworkLogEntry list \<Rightarrow> (string \<times> EndpointMergeInfo) list"
where
  "groupLogsByEndpoint P ls = fold (group_step P) ls []"

text \<open>
  \<^verbatim>\<open>mergeEndpointLogs\<close>.  \<open>pick_longer\<close> is the body of its \<^verbatim>\<open>forEach\<close>, on the pair
  \<^verbatim>\<open>(bestResponseBody, bestLog)\<close>; \<open>selectBest\<close> is the loop, started at the first log.
\<close>

definition pick_longer :: "NetworkLogEntry \<Rightarrow> string \<times> NetworkLogEntry \<Rightarrow> string \<times> NetworkLogEntry" where
  "pick_longer log best =
     (if length (res_body (response log)) > length (fst best)
      then (res_body (response log), log) else best)"

definition selectBest :: "NetworkLogEntry \<Rightarrow> NetworkLogEntry list \<Rightarrow> string \<times> NetworkLogEntry" where
  "selectBest baseLog ls = fold pick_longer ls (res_body (response baseLog), baseLog)"

definition mergeEndpointLogs :: "url_parser \<Rightarrow> EndpointMergeInfo \<Rightarrow> thrown + ProcessedApiData" where
  "mergeEndpointLogs P mergeInfo =
     (case logs mergeInfo of
        [] \<Rightarrow> Inl (ThrownAppError
                 (createProcessingError ''EMPTY_LOGS'' ''Cannot merge empty logs array'' None))
      | baseLog # _ \<Rightarrow>
          (let (bestResponseBody, bestLog) = selectBest baseLog (logs mergeInfo)
           in Inr \<lparr> method' = toUpperCase (req_method (request bestLog)),
                     url = req_url (request bestLog),
                     responseBody = bestResponseBody,
                     queryParams = extractQueryParams P (req_url (request bestLog)),
                     pathParams = extractPathParams (req_url (request bestLog)) \<rparr>))"

definition processLogEntry :: "url_parser \<Rightarrow> NetworkLogEntry \<Rightarrow> ProcessedApiData" where
  "processLogEntry P logEntry =
     \<lparr> method' = toUpperCase (req_method (request logEntry)),
       url = req_url (request logEntry),
       responseBody = res_body (response logEntry),
       queryParams = extractQueryParams P (req_url (request logEntry)),
       pathParams = extractPathParams (req_url (request logEntry)) \<rparr>"

text \<open>
  \<^verbatim>\<open>Array.prototype.sort(compareFn)\<close> is the platform's stable sort (ECMAScript 2019):
  here a stable insertion sort, inserting from the right so that an element stays in
  front of the later elements it compares equal to.  \<^verbatim>\<open>slice(0, end)\<close> for an integer
  \<open>end\<close>: a negative \<open>end\<close> counts from the end of the array.
\<close>

fun insert_by :: "('a \<Rightarrow> 'a \<Rightarrow> int) \<Rightarrow> 'a \<Rightarrow> 'a list \<Rightarrow> 'a list" where
  "insert_by cmp x [] = [x]"
| "insert_by cmp x (y # ys) = (if cmp x y \<le> 0 then x # y # ys else y # insert_by cmp x ys)"

definition array_sort :: "('a \<Rightarrow> 'a \<Rightarrow> int) \<Rightarrow> 'a list \<Rightarrow> 'a list" where
  "array_sort cmp xs = foldr (insert_by cmp) xs []"

definition slice0 :: "int \<Rightarrow> 'a list \<Rightarrow> 'a list" where
  "slice0 e xs = (if e < 0 then take (length xs - nat (- e)) xs else take (nat e) xs)"

text \<open>The comparator of \<^verbatim>\<open>filterAndPrioritizeLogs\<close>.\<close>

definition bffComparator :: "url_parser \<Rightarrow> NetworkLogEntry \<Rightarrow> NetworkLogEntry \<Rightarrow> int" where
  "bffComparator P a b =
     (let aIsBff = isBffBlockApiPattern P a;
          bIsBff = isBffBlockApiPattern P b
      in if aIsBff \<and> \<not> bIsBff then - 1
         else if \<not> aIsBff \<and> bIsBff then 1
         else 0)"

definition filterAndPrioritizeLogs ::
  "url_parser \<Rightarrow> DataProcessingOptions \<Rightarrow> NetworkLogEntry list \<Rightarrow> NetworkLogEntry list"
where
  "filterAndPrioritizeLogs P opts ls =
     (let filteredLogs = (if prioritizeBffApis opts then array_sort (bffComparator P) ls else ls)
      in if maxApis opts > 0 then slice0 (maxApis opts) filteredLogs else filteredLogs)"

text \<open>
  The two loops of \<^verbatim>\<open>processNetworkLogs\<close>, on the pair
  \<^verbatim>\<open>(processedData, bffApiCount)\<close>: over the groups (a throw of \<^verbatim>\<open>mergeEndpointLogs\<close>
  leaves the loop), and over the single logs.
\<close>

fun mergeGroups ::
  "url_parser \<Rightarrow> EndpointMergeInfo list \<Rightarrow> ProcessedApiCollection \<times> nat
     \<Rightarrow> thrown + ProcessedApiCollection \<times> nat"
where
  "mergeGroups P [] acc = Inr acc"
| "mergeGroups P (mergeInfo # rest) acc =
     (case mergeEndpointLogs P mergeInfo of
        Inl e \<Rightarrow> Inl e
      | Inr processed \<Rightarrow>
          mergeGroups P rest
            (fst acc @ [processed],
             if group_isBffBlockApi mergeInfo then snd acc + 1 else snd acc))"

fun processEach ::
  "url_parser \<Rightarrow> NetworkLogEntry list \<Rightarrow> ProcessedApiCollection \<times> nat \<Rightarrow> ProcessedApiCollection \<times> nat"
where
  "processEach P [] acc = acc"
| "processEach P (log # rest) acc =
     processEach P rest
       (fst acc @ [processLogEntry P log],
        if isBffBlockApiPattern P log then snd acc + 1 else snd acc)"

text \<open>The \<^verbatim>\<open>try\<close> block after the empty-input return, and the two ways out of it:
  the final \<^verbatim>\<open>return\<close> and the \<^verbatim>\<open>catch\<close> clause.\<close>

definition processBody ::
  "url_parser \<Rightarrow> DataProcessingOptions \<Rightarrow> NetworkLogEntry list \<Rightarrow> thrown + ProcessedApiCollection \<times> nat"
where
  "processBody P opts ls =
     (let filteredLogs = filterAndPrioritizeLogs P opts ls
      in if mergeDuplicates opts
         then mergeGroups P (map snd (groupLogsByEndpoint P filteredLogs)) ([], 0)
         else Inr (processEach P filteredLogs ([], 0)))"

definition finishProcessing ::
  "NetworkLogEntry list \<Rightarrow> thrown + ProcessedApiCollection \<times> nat \<Rightarrow> DataProcessingResult"
where
  "finishProcessing ls outcome =
     (case outcome of
        Inr (data, count) \<Rightarrow>
          \<lparr> success = True, processedData = data, totalLogs = length ls,
            bffApiCount = count, uniqueEndpoints = length data, error = None \<rparr>
      | Inl e \<Rightarrow>
          \<lparr> success = False, processedData = [], totalLogs = length ls,
            bffApiCount = 0, uniqueEndpoints = 0, error = Some (errorMessageOf e) \<rparr>)"

definition processNetworkLogs ::
  "url_parser \<Rightarrow> DataProcessingOptions \<Rightarrow> NetworkLogEntry list \<Rightarrow> DataProcessingResult"
where
  "processNetworkLogs P opts ls =
     (if length ls = 0
      then \<lparr> success = True, processedData = [], totalLogs = 0,
             bffApiCount = 0, uniqueEndpoints = 0, error = None \<rparr>
      else finishProcessing ls (processBody P opts ls))"

section \<open>Capture session (BrowserController, browserController.ts)\<close>
























section \<open>Serializer (DataProcessor.serializeForAI)\<close>

text \<open>
  \<^verbatim>\<open>serializeForAI\<close> is typed for \<^verbatim>\<open>ProcessedApiData[]\<close> but, as every JavaScript
  function, it can be handed any values (the repository's own test hands it an object
  that refers to itself).  To cover such inputs the values are modelled with an explicit
  heap: a value is \<^verbatim>\<open>undefined\<close>, \<^verbatim>\<open>null\<close>, a string or a reference to an object, and
  the heap maps an address to the object's own enumerable properties in their order.
  (Numbers and booleans behave like strings here and are left out.)
\<close>

datatype jsvalue = JSUndefined | JSNull | JSString string | JSObject nat

type_synonym heap = "(nat \<times> (string \<times> jsvalue) list) list"

text \<open>The value tree that \<^verbatim>\<open>JSON.stringify\<close> writes out.  Its text (with the indent
  2 given by the caller) is a function of this tree; the tree keeps the order of the
  properties, which is the order in which they are written.\<close>

datatype json = JNull | JString string | JObjectLit "(string \<times> json) list" | JArrayLit "json list"

text \<open>
  ECMAScript \<^verbatim>\<open>SerializeJSONProperty\<close> and \<^verbatim>\<open>SerializeJSONObject\<close>: \<open>stack\<close> holds the
  objects being written; meeting one of them again is the \<^verbatim>\<open>TypeError\<close> for a cyclic
  structure.  A property whose value is \<^verbatim>\<open>undefined\<close> is left out of its object.  (An
  address outside the heap does not occur in a JavaScript program; it is written as
  \<^verbatim>\<open>undefined\<close>.)
\<close>

function serializeJSONProperty :: "heap \<Rightarrow> nat list \<Rightarrow> jsvalue \<Rightarrow> thrown + json option"
  and serializeJSONObject ::
    "heap \<Rightarrow> nat list \<Rightarrow> (string \<times> jsvalue) list \<Rightarrow> thrown + (string \<times> json) list"
where
  "serializeJSONProperty h stack JSUndefined = Inr None"
| "serializeJSONProperty h stack JSNull = Inr (Some JNull)"
| "serializeJSONProperty h stack (JSString s) = Inr (Some (JString s))"
| "serializeJSONProperty h stack (JSObject a) =
     (if a \<in> set stack then Inl (ThrownError ''Converting circular structure to JSON'')
      else (case map_of h a of
              None \<Rightarrow> Inr None
            | Some props \<Rightarrow>
                (case serializeJSONObject h (a # stack) props of
                   Inl e \<Rightarrow> Inl e
                 | Inr ps \<Rightarrow> Inr (Some (JObjectLit ps)))))"
| "serializeJSONObject h stack [] = Inr []"
| "serializeJSONObject h stack (kv # rest) =
     (case serializeJSONProperty h stack (snd kv) of
        Inl e \<Rightarrow> Inl e
      | Inr None \<Rightarrow> serializeJSONObject h stack rest
      | Inr (Some j) \<Rightarrow>
          (case serializeJSONObject h stack rest of
             Inl e \<Rightarrow> Inl e
           | Inr ps \<Rightarrow> Inr ((fst kv, j) # ps)))"
  by pat_completeness auto
termination
proof (relation "measures
    [\<lambda>x. case x of Inl (h, stack, v) \<Rightarrow> card (fst ` set h - set stack)
                  | Inr (h, stack, ps) \<Rightarrow> card (fst ` set h - set stack),
     \<lambda>x. case x of Inl (h, stack, v) \<Rightarrow> 0
                  | Inr (h, stack, ps) \<Rightarrow> Suc (length ps)]", goal_cases)
  case 1
  show ?case by simp
next
  case (2 h stack a props)
  then have "a \<in> fst ` set h"
    by (metis map_of_SomeD fst_conv imageI)
  with 2 have "fst ` set h - set (a # stack) \<subset> fst ` set h - set stack"
    by auto
  then have "card (fst ` set h - set (a # stack)) < card (fst ` set h - set stack)"
    by (intro psubset_card_mono) simp_all
  then show ?case by simp
next
  case 3
  then show ?case by simp
next
  case 4
  then show ?case by simp
next
  case 5
  then show ?case by simp
qed

text \<open>Reading a property, \<^verbatim>\<open>api.name\<close>: a \<^verbatim>\<open>TypeError\<close> on \<^verbatim>\<open>undefined\<close> and
  \<^verbatim>\<open>null\<close>, \<^verbatim>\<open>undefined\<close> for a property the value does not have (none of the five
  names read below is a property of a string).\<close>

definition get_property :: "heap \<Rightarrow> jsvalue \<Rightarrow> string \<Rightarrow> thrown + jsvalue" where
  "get_property h v name =
     (case v of
        JSUndefined \<Rightarrow> Inl (ThrownError ''Cannot read properties of undefined'')
      | JSNull \<Rightarrow> Inl (ThrownError ''Cannot read properties of null'')
      | JSString s \<Rightarrow> Inr JSUndefined
      | JSObject a \<Rightarrow>
          (case map_of h a of
             None \<Rightarrow> Inr JSUndefined
           | Some props \<Rightarrow>
               (case map_of props name of None \<Rightarrow> Inr JSUndefined | Some x \<Rightarrow> Inr x)))"

text \<open>The object literal built for one element by the \<^verbatim>\<open>map\<close> callback: the five
  properties, in this order, read from \<open>api\<close>.\<close>

fun read_fields :: "heap \<Rightarrow> jsvalue \<Rightarrow> string list \<Rightarrow> thrown + (string \<times> jsvalue) list" where
  "read_fields h api [] = Inr []"
| "read_fields h api (name # names) =
     (case get_property h api name of
        Inl e \<Rightarrow> Inl e
      | Inr v \<Rightarrow>
          (case read_fields h api names of
             Inl e \<Rightarrow> Inl e
           | Inr fs \<Rightarrow> Inr ((name, v) # fs)))"

definition aiData_entry :: "heap \<Rightarrow> jsvalue \<Rightarrow> thrown + (string \<times> jsvalue) list" where
  "aiData_entry h api =
     read_fields h api [''method'', ''url'', ''responseBody'', ''queryParams'', ''pathParams'']"

fun aiData :: "heap \<Rightarrow> jsvalue list \<Rightarrow> thrown + (string \<times> jsvalue) list list" where
  "aiData h [] = Inr []"
| "aiData h (api # rest) =
     (case aiData_entry h api of
        Inl e \<Rightarrow> Inl e
      | Inr entry \<Rightarrow>
          (case aiData h rest of Inl e \<Rightarrow> Inl e | Inr entries \<Rightarrow> Inr (entry # entries)))"

text \<open>\<^verbatim>\<open>JSON.stringify(aiData, null, 2)\<close>: the array and the object literals are fresh
  objects, which no property can refer to, so the stack of the objects of the heap
  starts empty at the literals' properties.\<close>

fun stringify_entries :: "heap \<Rightarrow> (string \<times> jsvalue) list list \<Rightarrow> thrown + json list" where
  "stringify_entries h [] = Inr []"
| "stringify_entries h (entry # rest) =
     (case serializeJSONObject h [] entry of
        Inl e \<Rightarrow> Inl e
      | Inr ps \<Rightarrow>
          (case stringify_entries h rest of
             Inl e \<Rightarrow> Inl e
           | Inr js \<Rightarrow> Inr (JObjectLit ps # js)))"

definition serializeForAI :: "heap \<Rightarrow> jsvalue list \<Rightarrow> thrown + json" where
  "serializeForAI h processed =
     (case (case aiData h processed of
              Inl e \<Rightarrow> Inl e
            | Inr entries \<Rightarrow> stringify_entries h entries) of
        Inr js \<Rightarrow> Inr (JArrayLit js)
      | Inl e \<Rightarrow>
          Inl (ThrownAppError
                 (createProcessingError ''SERIALIZATION_ERROR''
                    ''Failed to serialize processed data for AI consumption''
                    (Some (errorMessageOf e)))))"

text \<open>The argument of the repository's serialization test,
  \<^verbatim>\<open>circularData = { method: 'GET', url: 'test' }; circularData.self = circularData\<close>,
  at address 0; and an endpoint whose \<^verbatim>\<open>queryParams\<close> object (address 1) refers to
  itself.\<close>

definition circular_heap :: heap where
  "circular_heap =
     [(0, [(''method'', JSString ''GET''), (''url'', JSString ''test''), (''self'', JSObject 0)])]"

definition circular_params_heap :: heap where
  "circular_params_heap =
     [(0, [(''method'', JSString ''GET''), (''url'', JSString ''test''),
           (''responseBody'', JSString ''{}''), (''queryParams'', JSObject 1),
           (''pathParams'', JSObject 2)]),
      (1, [(''self'', JSObject 1)]),
      (2, [])]"

section \<open>Reference definitions for the grouping and the prioritisation\<close>

text \<open>
  Written from the specification's words, to compare the code with: the stable
  partition of a list by a predicate; the keys of a list in first-seen order; the group
  of a key (the exchanges sharing it, in order, flagged when one of them is a block
  API); the partition of the exchanges by endpoint identity; a method as the data
  model has it, without lower-case letters.
\<close>

definition first_seen :: "'a list \<Rightarrow> 'a list" where
  "first_seen xs = rev (remdups (rev xs))"

definition group_of :: "url_parser \<Rightarrow> NetworkLogEntry list \<Rightarrow> string \<Rightarrow> EndpointMergeInfo" where
  "group_of P ls k =
     \<lparr> endpointKey = k,
       logs = filter (\<lambda>l. createEndpointKey P l = k) ls,
       group_isBffBlockApi =
         list_ex (isBffBlockApiPattern P) (filter (\<lambda>l. createEndpointKey P l = k) ls) \<rparr>"

definition partition_by_identity ::
  "url_parser \<Rightarrow> NetworkLogEntry list \<Rightarrow> (string \<times> EndpointMergeInfo) list"
where
  "partition_by_identity P ls =
     map (\<lambda>k. (k, group_of P ls k)) (first_seen (map (createEndpointKey P) ls))"

definition stable_partition :: "('a \<Rightarrow> bool) \<Rightarrow> 'a list \<Rightarrow> 'a list" where
  "stable_partition p xs = filter p xs @ filter (\<lambda>x. \<not> p x) xs"

definition lowercase_free :: "string \<Rightarrow> bool" where
  "lowercase_free s = list_all (\<lambda>c. \<not> (97 \<le> (of_char c :: nat) \<and> (of_char c :: nat) \<le> 122)) s"



section \<open>Sample exchanges\<close>

text \<open>An exchange as the capture session records it, with the given method, URL and
  response body; used to run the model on concrete inputs.\<close>

definition exchange :: "string \<Rightarrow> string \<Rightarrow> string \<Rightarrow> NetworkLogEntry" where
  "exchange m u b =
     \<lparr> entry_id = ''log'',
       request = \<lparr> req_method = m, req_url = u, req_headers = [], req_body = None,
                   req_timestamp = 0 \<rparr>,
       response = \<lparr> res_status = 200, res_statusText = ''OK'', res_headers = [],
                    res_body = b, res_contentType = ''application/json'', res_timestamp = 0 \<rparr>,
       resourceType = ''fetch'',
       isBffBlockApi = False \<rparr>"

abbreviation bodyLength :: "NetworkLogEntry \<Rightarrow> nat" where
  "bodyLength l \<equiv> length (res_body (response l))"

definition users_group :: EndpointMergeInfo where
  "users_group =
     \<lparr> endpointKey = ''GET api.example.com/v1/users'',
       logs = [exchange ''GET'' ''https://api.example.com/v1/users?page=1'' ''ab'',
               exchange ''GET'' ''https://api.example.com/v1/users?page=2'' ''abcd'',
               exchange ''GET'' ''https://api.example.com/v1/users?page=3'' ''wxyz''],
       group_isBffBlockApi = False \<rparr>"

definition blocks_banner :: NetworkLogEntry where
  "blocks_banner = exchange ''GET'' ''https://api.example.com/v1/blocks?keys=home.banner'' ''{a:1}''"

definition blocks_hero :: NetworkLogEntry where
  "blocks_hero = exchange ''GET'' ''https://api.example.com/v1/blocks?keys=home.hero'' ''{a:1,b:2}''"


definition users_page :: NetworkLogEntry where
  "users_page = exchange ''GET'' ''https://api.example.com/v1/users?page=1'' ''[]''"

definition orders_post :: NetworkLogEntry where
  "orders_post = exchange ''POST'' ''https://api.example.com/v1/orders'' ''{ok:true}''"

definition unparsable :: NetworkLogEntry where
  "unparsable = exchange ''GET'' ''not-a-valid-url'' ''{test:true}''"

definition empty_group :: EndpointMergeInfo where
  "empty_group = \<lparr> endpointKey = ''GET api.example.com/v1/users'', logs = [], group_isBffBlockApi = False \<rparr>"

section \<open>Properties of the string primitives and of the reference parser\<close>

lemma js_includes_iff: "js_includes s t \<longleftrightarrow> (\<exists>pre post. s = pre @ t @ post)"
  by (simp add: js_includes_def sublist_def)

lemma endsWith_iff: "endsWith s t \<longleftrightarrow> (\<exists>pre. s = pre @ t)"
  by (simp add: endsWith_def suffix_def)

lemma has_iff: "has params name \<longleftrightarrow> (\<exists>v. (name, v) \<in> set params)"
  by (force simp: has_def)

lemma plain_url_invalid: "plain_url ''not-a-valid-url'' = None"
  by code_simp

lemma plain_url_blocks_banner:
  "plain_url ''https://api.example.com/v1/blocks?keys=home.banner'' =
     Some \<lparr> hostname = ''api.example.com'', pathname = ''/v1/blocks'',
            searchParams = [(''keys'', ''home.banner'')] \<rparr>"
  by code_simp

lemma plain_url_blocks_hero:
  "plain_url ''https://api.example.com/v1/blocks?keys=home.hero'' =
     Some \<lparr> hostname = ''api.example.com'', pathname = ''/v1/blocks'',
            searchParams = [(''keys'', ''home.hero'')] \<rparr>"
  by code_simp

section \<open>Exchange classifier\<close>

text \<open>
  C4.  For every URL string the block-API classifier returns a boolean (the whole body
  is inside \<^verbatim>\<open>try\<close>, so the model is a total function): it is true iff the URL
  parses, \<^verbatim>\<open>/blocks\<close> occurs in its path and its query string has a parameter named
  \<^verbatim>\<open>keys\<close>; a URL that fails to parse classifies as false.  The copy in the data
  processor computes the same value from the exchange's URL.
\<close>

theorem classifier_total:
  "isBffBlockApiPattern_url P u =
     (case P u of
        None \<Rightarrow> False
      | Some urlObj \<Rightarrow>
          (\<exists>pre post. pathname urlObj = pre @ ''/blocks'' @ post)
          \<and> (\<exists>v. (''keys'', v) \<in> set (searchParams urlObj)))
   \<and> isBffBlockApiPattern P logEntry = isBffBlockApiPattern_url P (req_url (request logEntry))"
  by (simp add: isBffBlockApiPattern_url_def isBffBlockApiPattern_def js_includes_iff has_iff
           split: option.splits)

theorem classifier_total_witness:
  "isBffBlockApiPattern_url plain_url ''https://api.example.com/v1/blocks?keys=home.banner''
   \<and> \<not> isBffBlockApiPattern_url plain_url ''not-a-valid-url''
   \<and> \<not> isBffBlockApiPattern_url plain_url ''https://api.example.com/v1/users?keys=a''"
proof -
  have a: "isBffBlockApiPattern_url plain_url ''https://api.example.com/v1/blocks?keys=home.banner''"
    by code_simp
  have b: "\<not> isBffBlockApiPattern_url plain_url ''not-a-valid-url''"
    using classifier_total [of plain_url "''not-a-valid-url''"]
    by (simp add: plain_url_invalid)
  have c: "\<not> isBffBlockApiPattern_url plain_url ''https://api.example.com/v1/users?keys=a''"
    by code_simp
  show ?thesis using a b c by simp
qed

section \<open>Host filter\<close>

text \<open>
  C5, as the code has it.  The host filter returns a boolean for every URL and every
  \<open>allowedHosts\<close> list.  It accepts iff \<open>allowedHosts\<close> is empty (then every URL is
  accepted, whether it parses or not: the list is tested before the URL is parsed) or
  the URL parses and its hostname equals an entry or ends with a dot followed by an
  entry.  With a non-empty \<open>allowedHosts\<close>, a URL that fails to parse is rejected.
\<close>

theorem isHostAllowed_accepts:
  "(isHostAllowed P allowedHosts u \<longleftrightarrow>
      allowedHosts = [] \<or>
      (\<exists>urlObj host. P u = Some urlObj \<and> host \<in> set allowedHosts \<and>
         (hostname urlObj = host \<or> (\<exists>pre. hostname urlObj = pre @ ''.'' @ host))))
   \<and> (allowedHosts \<noteq> [] \<and> P u = None \<longrightarrow> \<not> isHostAllowed P allowedHosts u)"
  by (auto simp: isHostAllowed_def endsWith_iff list_ex_iff split: option.splits)

theorem isHostAllowed_accepts_witness:
  "isHostAllowed plain_url [''api.example.com''] ''https://sub.api.example.com/x''
   \<and> isHostAllowed plain_url [''api.example.com''] ''https://api.example.com/x''
   \<and> \<not> isHostAllowed plain_url [''api.example.com''] ''https://api.example.com.evil.com/x''
   \<and> \<not> isHostAllowed plain_url [''api.example.com''] ''https://otherhost.com/x''
   \<and> \<not> isHostAllowed plain_url [''api.example.com''] ''not-a-valid-url''"
proof -
  have a: "isHostAllowed plain_url [''api.example.com''] ''https://sub.api.example.com/x''"
    by code_simp
  have b: "isHostAllowed plain_url [''api.example.com''] ''https://api.example.com/x''"
    by code_simp
  have c: "\<not> isHostAllowed plain_url [''api.example.com''] ''https://api.example.com.evil.com/x''"
    by code_simp
  have d: "\<not> isHostAllowed plain_url [''api.example.com''] ''https://otherhost.com/x''"
    by code_simp
  have e: "\<not> isHostAllowed plain_url [''api.example.com''] ''not-a-valid-url''"
    using isHostAllowed_accepts [of plain_url "[''api.example.com'']" "''not-a-valid-url''"]
    by (simp add: plain_url_invalid)
  show ?thesis using a b c d e by simp
qed

text \<open>The claim as stated (an unparsable URL is always rejected) fails when
  \<open>allowedHosts\<close> is empty: the string below does not parse and is accepted.\<close>

theorem isHostAllowed_unparsable_counterexample:
  "plain_url ''not-a-valid-url'' = None \<and> isHostAllowed plain_url [] ''not-a-valid-url''"
  by (simp add: plain_url_invalid isHostAllowed_def)

section \<open>Representative selection\<close>

lemma fold_pick_longer:
  "\<exists>r. fold pick_longer xs (res_body (response c), c) = (res_body (response r), r) \<and>
       ((r = c \<and> (\<forall>x\<in>set xs. bodyLength x \<le> bodyLength c)) \<or>
        (\<exists>pre post. xs = pre @ r # post \<and> bodyLength c < bodyLength r \<and>
            (\<forall>x\<in>set pre. bodyLength x < bodyLength r) \<and>
            (\<forall>x\<in>set post. bodyLength x \<le> bodyLength r)))"
proof (induction xs arbitrary: c)
  case Nil
  then show ?case by simp
next
  case (Cons x xs)
  show ?case
  proof (cases "bodyLength x > bodyLength c")
    case True
    then have step: "fold pick_longer (x # xs) (res_body (response c), c) =
        fold pick_longer xs (res_body (response x), x)"
      by (simp add: pick_longer_def)
    from Cons.IH [of x] obtain r where
      r: "fold pick_longer xs (res_body (response x), x) = (res_body (response r), r)"
      and alt: "(r = x \<and> (\<forall>y\<in>set xs. bodyLength y \<le> bodyLength x)) \<or>
        (\<exists>pre post. xs = pre @ r # post \<and> bodyLength x < bodyLength r \<and>
            (\<forall>y\<in>set pre. bodyLength y < bodyLength r) \<and>
            (\<forall>y\<in>set post. bodyLength y \<le> bodyLength r))"
      by blast
    from alt show ?thesis
    proof
      assume "r = x \<and> (\<forall>y\<in>set xs. bodyLength y \<le> bodyLength x)"
      then have "x # xs = [] @ r # xs \<and> bodyLength c < bodyLength r \<and>
          (\<forall>y\<in>set []. bodyLength y < bodyLength r) \<and>
          (\<forall>y\<in>set xs. bodyLength y \<le> bodyLength r)"
        using True by simp
      then show ?thesis using step r by metis
    next
      assume "\<exists>pre post. xs = pre @ r # post \<and> bodyLength x < bodyLength r \<and>
            (\<forall>y\<in>set pre. bodyLength y < bodyLength r) \<and>
            (\<forall>y\<in>set post. bodyLength y \<le> bodyLength r)"
      then obtain pre post where p: "xs = pre @ r # post" "bodyLength x < bodyLength r"
        "\<forall>y\<in>set pre. bodyLength y < bodyLength r" "\<forall>y\<in>set post. bodyLength y \<le> bodyLength r"
        by blast
      then have "x # xs = (x # pre) @ r # post \<and> bodyLength c < bodyLength r \<and>
          (\<forall>y\<in>set (x # pre). bodyLength y < bodyLength r) \<and>
          (\<forall>y\<in>set post. bodyLength y \<le> bodyLength r)"
        using True by simp
      then show ?thesis using step r by metis
    qed
  next
    case False
    then have step: "fold pick_longer (x # xs) (res_body (response c), c) =
        fold pick_longer xs (res_body (response c), c)"
      by (simp add: pick_longer_def)
    from Cons.IH [of c] obtain r where
      r: "fold pick_longer xs (res_body (response c), c) = (res_body (response r), r)"
      and alt: "(r = c \<and> (\<forall>y\<in>set xs. bodyLength y \<le> bodyLength c)) \<or>
        (\<exists>pre post. xs = pre @ r # post \<and> bodyLength c < bodyLength r \<and>
            (\<forall>y\<in>set pre. bodyLength y < bodyLength r) \<and>
            (\<forall>y\<in>set post. bodyLength y \<le> bodyLength r))"
      by blast
    from alt show ?thesis
    proof
      assume "r = c \<and> (\<forall>y\<in>set xs. bodyLength y \<le> bodyLength c)"
      then have "r = c \<and> (\<forall>y\<in>set (x # xs). bodyLength y \<le> bodyLength c)"
        using False by simp
      then show ?thesis using step r by metis
    next
      assume "\<exists>pre post. xs = pre @ r # post \<and> bodyLength c < bodyLength r \<and>
            (\<forall>y\<in>set pre. bodyLength y < bodyLength r) \<and>
            (\<forall>y\<in>set post. bodyLength y \<le> bodyLength r)"
      then obtain pre post where p: "xs = pre @ r # post" "bodyLength c < bodyLength r"
        "\<forall>y\<in>set pre. bodyLength y < bodyLength r" "\<forall>y\<in>set post. bodyLength y \<le> bodyLength r"
        by blast
      then have "x # xs = (x # pre) @ r # post \<and> bodyLength c < bodyLength r \<and>
          (\<forall>y\<in>set (x # pre). bodyLength y < bodyLength r) \<and>
          (\<forall>y\<in>set post. bodyLength y \<le> bodyLength r)"
        using False by simp
      then show ?thesis using step r by metis
    qed
  qed
qed

lemma selectBest_first_longest:
  "\<exists>r pre post. selectBest b (b # rest) = (res_body (response r), r) \<and>
      b # rest = pre @ r # post \<and>
      (\<forall>x\<in>set pre. bodyLength x < bodyLength r) \<and>
      (\<forall>x\<in>set post. bodyLength x \<le> bodyLength r)"
proof -
  from fold_pick_longer [of "b # rest" b] obtain r where
    r: "selectBest b (b # rest) = (res_body (response r), r)"
    and alt: "(r = b \<and> (\<forall>x\<in>set (b # rest). bodyLength x \<le> bodyLength b)) \<or>
        (\<exists>pre post. b # rest = pre @ r # post \<and> bodyLength b < bodyLength r \<and>
            (\<forall>x\<in>set pre. bodyLength x < bodyLength r) \<and>
            (\<forall>x\<in>set post. bodyLength x \<le> bodyLength r))"
    unfolding selectBest_def by blast
  from alt show ?thesis
  proof
    assume "r = b \<and> (\<forall>x\<in>set (b # rest). bodyLength x \<le> bodyLength b)"
    then have "b # rest = [] @ r # rest \<and> (\<forall>x\<in>set []. bodyLength x < bodyLength r) \<and>
        (\<forall>x\<in>set rest. bodyLength x \<le> bodyLength r)"
      by simp
    then show ?thesis using r by blast
  next
    assume "\<exists>pre post. b # rest = pre @ r # post \<and> bodyLength b < bodyLength r \<and>
            (\<forall>x\<in>set pre. bodyLength x < bodyLength r) \<and>
            (\<forall>x\<in>set post. bodyLength x \<le> bodyLength r)"
    then show ?thesis using r by blast
  qed
qed

text \<open>The rule "strictly shorter before, not longer after" picks one position only.\<close>

lemma first_longest_unique:
  fixes f :: "'a \<Rightarrow> nat"
  assumes "pre @ r # post = pre' @ r' # post'"
    and "\<forall>x\<in>set pre. f x < f r" and "\<forall>x\<in>set post. f x \<le> f r"
    and "\<forall>x\<in>set pre'. f x < f r'" and "\<forall>x\<in>set post'. f x \<le> f r'"
  shows "pre = pre' \<and> r = r' \<and> post = post'"
  using assms
proof (induction pre arbitrary: pre')
  case Nil
  show ?case
  proof (cases pre')
    case Nil
    with Nil.prems show ?thesis by simp
  next
    case (Cons a list)
    with Nil.prems have "r = a" and "r' \<in> set post" by auto
    with Nil.prems Cons have "f r' \<le> f r" and "f r < f r'" by auto
    then show ?thesis by simp
  qed
next
  case (Cons a pre)
  show ?case
  proof (cases pre')
    case Nil
    with Cons.prems have "r' = a" and "r \<in> set post'" by auto
    with Cons.prems Nil have "f r \<le> f r'" and "f r' < f r" by auto
    then show ?thesis by simp
  next
    case (Cons a' list)
    with Cons.prems have eq: "a = a'" "pre @ r # post = list @ r' # post'" by auto
    have "pre = list \<and> r = r' \<and> post = post'"
      using Cons.IH [OF eq(2)] Cons.prems Cons by simp
    with eq Cons show ?thesis by simp
  qed
qed

lemma mergeEndpointLogs_representative:
  assumes "logs mergeInfo \<noteq> []"
  shows "\<exists>pre r post.
      logs mergeInfo = pre @ r # post \<and>
      (\<forall>x\<in>set pre. bodyLength x < bodyLength r) \<and>
      (\<forall>x\<in>set post. bodyLength x \<le> bodyLength r) \<and>
      mergeEndpointLogs P mergeInfo =
        Inr \<lparr> method' = toUpperCase (req_method (request r)),
              url = req_url (request r),
              responseBody = res_body (response r),
              queryParams = extractQueryParams P (req_url (request r)),
              pathParams = [] \<rparr>"
proof -
  from assms obtain b rest where ls: "logs mergeInfo = b # rest"
    by (cases "logs mergeInfo") auto
  from selectBest_first_longest [of b rest] obtain r pre post where
    sel: "selectBest b (b # rest) = (res_body (response r), r)"
    and dec: "b # rest = pre @ r # post"
    and before: "\<forall>x\<in>set pre. bodyLength x < bodyLength r"
    and after: "\<forall>x\<in>set post. bodyLength x \<le> bodyLength r"
    by blast
  have "mergeEndpointLogs P mergeInfo =
        Inr \<lparr> method' = toUpperCase (req_method (request r)),
              url = req_url (request r),
              responseBody = res_body (response r),
              queryParams = extractQueryParams P (req_url (request r)),
              pathParams = [] \<rparr>"
    by (simp add: mergeEndpointLogs_def ls sel extractPathParams_def)
  with ls dec before after show ?thesis by metis
qed

text \<open>
  C2.  For a non-empty group, merging succeeds and the representative \<open>r\<close> whose
  method, URL and body the endpoint takes is the first exchange of maximal response-body
  length: every exchange before it in the group is strictly shorter, none after it is
  longer.  This position is the only one with that property, so the selection is a
  function of the exchange list alone.
\<close>

theorem representative_is_first_longest:
  assumes "logs mergeInfo \<noteq> []"
  shows "\<exists>pre r post.
      logs mergeInfo = pre @ r # post \<and>
      (\<forall>x\<in>set pre. bodyLength x < bodyLength r) \<and>
      (\<forall>x\<in>set post. bodyLength x \<le> bodyLength r) \<and>
      mergeEndpointLogs P mergeInfo =
        Inr \<lparr> method' = toUpperCase (req_method (request r)),
              url = req_url (request r),
              responseBody = res_body (response r),
              queryParams = extractQueryParams P (req_url (request r)),
              pathParams = [] \<rparr> \<and>
      (\<forall>pre' r' post'.
          logs mergeInfo = pre' @ r' # post' \<and>
          (\<forall>x\<in>set pre'. bodyLength x < bodyLength r') \<and>
          (\<forall>x\<in>set post'. bodyLength x \<le> bodyLength r')
          \<longrightarrow> pre' = pre \<and> r' = r \<and> post' = post)"
proof -
  from mergeEndpointLogs_representative [OF assms, of P] obtain pre r post where
    dec: "logs mergeInfo = pre @ r # post"
    and before: "\<forall>x\<in>set pre. bodyLength x < bodyLength r"
    and after: "\<forall>x\<in>set post. bodyLength x \<le> bodyLength r"
    and res: "mergeEndpointLogs P mergeInfo =
        Inr \<lparr> method' = toUpperCase (req_method (request r)),
              url = req_url (request r),
              responseBody = res_body (response r),
              queryParams = extractQueryParams P (req_url (request r)),
              pathParams = [] \<rparr>"
    by blast
  have uniq: "\<forall>pre' r' post'.
          logs mergeInfo = pre' @ r' # post' \<and>
          (\<forall>x\<in>set pre'. bodyLength x < bodyLength r') \<and>
          (\<forall>x\<in>set post'. bodyLength x \<le> bodyLength r')
          \<longrightarrow> pre' = pre \<and> r' = r \<and> post' = post"
  proof (intro allI impI)
    fix pre' r' post'
    assume h: "logs mergeInfo = pre' @ r' # post' \<and>
          (\<forall>x\<in>set pre'. bodyLength x < bodyLength r') \<and>
          (\<forall>x\<in>set post'. bodyLength x \<le> bodyLength r')"
    then have "pre' @ r' # post' = pre @ r # post" using dec by simp
    from first_longest_unique [OF this, of bodyLength] h before after
    show "pre' = pre \<and> r' = r \<and> post' = post" by blast
  qed
  from dec before after res uniq show ?thesis by blast
qed

theorem representative_is_first_longest_witness:
  "logs users_group \<noteq> [] \<and>
   mergeEndpointLogs plain_url users_group =
     Inr \<lparr> method' = ''GET'', url = ''https://api.example.com/v1/users?page=2'',
           responseBody = ''abcd'', queryParams = [(''page'', ''2'')], pathParams = [] \<rparr>"
proof -
  let ?e1 = "exchange ''GET'' ''https://api.example.com/v1/users?page=1'' ''ab''"
  let ?e2 = "exchange ''GET'' ''https://api.example.com/v1/users?page=2'' ''abcd''"
  let ?e3 = "exchange ''GET'' ''https://api.example.com/v1/users?page=3'' ''wxyz''"
  have ne: "logs users_group \<noteq> []"
    by (simp add: users_group_def)
  from representative_is_first_longest [OF ne, of plain_url] obtain pre r post where
    res: "mergeEndpointLogs plain_url users_group =
        Inr \<lparr> method' = toUpperCase (req_method (request r)),
              url = req_url (request r),
              responseBody = res_body (response r),
              queryParams = extractQueryParams plain_url (req_url (request r)),
              pathParams = [] \<rparr>"
    and uniq: "\<forall>pre' r' post'.
          logs users_group = pre' @ r' # post' \<and>
          (\<forall>x\<in>set pre'. bodyLength x < bodyLength r') \<and>
          (\<forall>x\<in>set post'. bodyLength x \<le> bodyLength r')
          \<longrightarrow> pre' = pre \<and> r' = r \<and> post' = post"
    by blast
  have "[?e1] = pre \<and> ?e2 = r \<and> [?e3] = post"
    using uniq [rule_format, of "[?e1]" ?e2 "[?e3]"]
    by (simp add: users_group_def exchange_def)
  then have r: "r = ?e2" by simp
  have up: "toUpperCase ''GET'' = ''GET''" by code_simp
  have q: "extractQueryParams plain_url ''https://api.example.com/v1/users?page=2'' = [(''page'', ''2'')]"
    by code_simp
  show ?thesis using ne res by (simp add: r exchange_def up q)
qed

section \<open>Prioritisation and cap\<close>

lemma insert_by_block:
  "isBffBlockApiPattern P x \<Longrightarrow> insert_by (bffComparator P) x ys = x # ys"
  by (cases ys) (simp_all add: bffComparator_def Let_def)

lemma insert_by_other:
  "\<not> isBffBlockApiPattern P x \<Longrightarrow> \<forall>b\<in>set bs. isBffBlockApiPattern P b \<Longrightarrow>
   \<forall>n\<in>set ns. \<not> isBffBlockApiPattern P n \<Longrightarrow>
   insert_by (bffComparator P) x (bs @ ns) = bs @ x # ns"
proof (induction bs)
  case Nil
  then show ?case by (cases ns) (simp_all add: bffComparator_def Let_def)
next
  case (Cons b bs)
  then show ?case by (simp add: bffComparator_def Let_def)
qed

text \<open>With the comparator of \<^verbatim>\<open>filterAndPrioritizeLogs\<close> the stable sort is a stable
  partition: the block exchanges in their order, then the others in theirs.\<close>

lemma array_sort_bffComparator:
  "array_sort (bffComparator P) xs = stable_partition (isBffBlockApiPattern P) xs"
proof (induction xs)
  case Nil
  show ?case by (simp add: array_sort_def stable_partition_def)
next
  case (Cons x xs)
  have step: "array_sort (bffComparator P) (x # xs) =
      insert_by (bffComparator P) x (array_sort (bffComparator P) xs)"
    by (simp add: array_sort_def)
  show ?case
  proof (cases "isBffBlockApiPattern P x")
    case True
    then show ?thesis
      by (simp add: step Cons.IH insert_by_block stable_partition_def)
  next
    case False
    then show ?thesis
      by (simp add: step Cons.IH insert_by_other stable_partition_def)
  qed
qed

section \<open>Grouping by endpoint key\<close>

text \<open>The imperative grouping loop computes the partition by key, groups in first-seen
  order, members in input order, each group's flag the disjunction over its members.\<close>

lemma first_seen_snoc:
  "first_seen (xs @ [x]) = (if x \<in> set xs then first_seen xs else first_seen xs @ [x])"
  by (simp add: first_seen_def)

lemma set_first_seen [simp]: "set (first_seen xs) = set xs"
  by (simp add: first_seen_def)

lemma distinct_first_seen [simp]: "distinct (first_seen xs)"
  by (simp add: first_seen_def)

lemma map_of_keyed:
  "map_of (map (\<lambda>k. (k, f k)) ks) k = (if k \<in> set ks then Some (f k) else None)"
  by (induction ks) auto

lemma update_keyed:
  "distinct ks \<Longrightarrow> k \<in> set ks \<Longrightarrow>
   AList.update k v (map (\<lambda>k'. (k', f k')) ks) = map (\<lambda>k'. (k', (f(k := v)) k')) ks"
proof (induction ks)
  case Nil
  then show ?case by simp
next
  case (Cons a ks)
  show ?case
  proof (cases "a = k")
    case True
    with Cons.prems have "k \<notin> set ks" by simp
    then have "map (\<lambda>k'. (k', (f(k := v)) k')) ks = map (\<lambda>k'. (k', f k')) ks"
      by (intro map_cong) auto
    with True show ?thesis by simp
  next
    case False
    with Cons show ?thesis by simp
  qed
qed

lemma group_of_snoc_same:
  "createEndpointKey P l = k \<Longrightarrow>
   group_of P (ls @ [l]) k =
     (group_of P ls k)\<lparr> logs := logs (group_of P ls k) @ [l],
        group_isBffBlockApi := group_isBffBlockApi (group_of P ls k) \<or> isBffBlockApiPattern P l \<rparr>"
  by (simp add: group_of_def)

lemma group_of_snoc_other:
  "createEndpointKey P l \<noteq> k \<Longrightarrow> group_of P (ls @ [l]) k = group_of P ls k"
  by (simp add: group_of_def)

lemma group_of_fresh:
  "createEndpointKey P l \<notin> createEndpointKey P ` set ls \<Longrightarrow>
   group_of P (ls @ [l]) (createEndpointKey P l) =
     \<lparr> endpointKey = createEndpointKey P l, logs = [l],
       group_isBffBlockApi = isBffBlockApiPattern P l \<rparr>"
proof -
  assume "createEndpointKey P l \<notin> createEndpointKey P ` set ls"
  then have "\<forall>x\<in>set ls. createEndpointKey P x \<noteq> createEndpointKey P l"
    by (metis imageI)
  then have "filter (\<lambda>x. createEndpointKey P x = createEndpointKey P l) ls = []"
    by (simp add: filter_empty_conv)
  then show ?thesis by (simp add: group_of_def)
qed

lemma group_step_partition:
  "group_step P l (partition_by_identity P ls) = partition_by_identity P (ls @ [l])"
proof (cases "createEndpointKey P l \<in> createEndpointKey P ` set ls")
  case True
  let ?k = "createEndpointKey P l"
  let ?ks = "first_seen (map (createEndpointKey P) ls)"
  let ?v = "(group_of P ls ?k)\<lparr> logs := logs (group_of P ls ?k) @ [l],
        group_isBffBlockApi := group_isBffBlockApi (group_of P ls ?k) \<or> isBffBlockApiPattern P l \<rparr>"
  from True have mem: "?k \<in> set ?ks" by simp
  have look: "map_of (partition_by_identity P ls) ?k = Some (group_of P ls ?k)"
    using mem by (simp add: partition_by_identity_def map_of_keyed)
  have "group_step P l (partition_by_identity P ls) =
          AList.update ?k ?v (partition_by_identity P ls)"
    by (simp add: group_step_def look Let_def)
  also have "\<dots> = map (\<lambda>k'. (k', ((group_of P ls)(?k := ?v)) k')) ?ks"
    unfolding partition_by_identity_def using mem by (simp add: update_keyed)
  also have "\<dots> = map (\<lambda>k'. (k', group_of P (ls @ [l]) k')) ?ks"
    by (intro map_cong) (auto simp: group_of_snoc_same group_of_snoc_other)
  also have "\<dots> = partition_by_identity P (ls @ [l])"
    using True by (simp add: partition_by_identity_def first_seen_snoc)
  finally show ?thesis .
next
  case False
  let ?k = "createEndpointKey P l"
  let ?ks = "first_seen (map (createEndpointKey P) ls)"
  from False have nmem: "?k \<notin> set ?ks" by simp
  have look: "map_of (partition_by_identity P ls) ?k = None"
    using nmem by (simp add: partition_by_identity_def map_of_keyed)
  have "group_step P l (partition_by_identity P ls) =
          partition_by_identity P ls @
            [(?k, \<lparr> endpointKey = ?k, logs = [l], group_isBffBlockApi = isBffBlockApiPattern P l \<rparr>)]"
    by (simp add: group_step_def look Let_def)
  also have "\<dots> = map (\<lambda>k'. (k', group_of P (ls @ [l]) k')) ?ks @ [(?k, group_of P (ls @ [l]) ?k)]"
  proof -
    have "\<forall>k'\<in>set ?ks. group_of P (ls @ [l]) k' = group_of P ls k'"
      using nmem by (metis group_of_snoc_other)
    then have "map (\<lambda>k'. (k', group_of P ls k')) ?ks = map (\<lambda>k'. (k', group_of P (ls @ [l]) k')) ?ks"
      by (intro map_cong) auto
    then show ?thesis
      using False by (simp add: partition_by_identity_def group_of_fresh)
  qed
  also have "\<dots> = partition_by_identity P (ls @ [l])"
    using False by (simp add: partition_by_identity_def first_seen_snoc)
  finally show ?thesis .
qed

lemma groupLogsByEndpoint_partition:
  "groupLogsByEndpoint P ls = partition_by_identity P ls"
proof (induction ls rule: rev_induct)
  case Nil
  show ?case by (simp add: groupLogsByEndpoint_def partition_by_identity_def first_seen_def)
next
  case (snoc l ls)
  have "groupLogsByEndpoint P (ls @ [l]) = group_step P l (groupLogsByEndpoint P ls)"
    by (simp add: groupLogsByEndpoint_def)
  then show ?case by (simp add: snoc.IH group_step_partition)
qed

lemma groups_nonempty:
  "g \<in> set (map snd (groupLogsByEndpoint P ls)) \<Longrightarrow> logs g \<noteq> []"
  by (auto simp: groupLogsByEndpoint_partition partition_by_identity_def group_of_def
      filter_empty_conv)

lemma mergeGroups_nonempty:
  "\<forall>g\<in>set gs. logs g \<noteq> [] \<Longrightarrow>
   \<exists>ds. mergeGroups P gs acc =
           Inr (fst acc @ ds, snd acc + length (filter group_isBffBlockApi gs)) \<and>
        list_all2 (\<lambda>g d. mergeEndpointLogs P g = Inr d) gs ds"
proof (induction gs arbitrary: acc)
  case Nil
  then show ?case by simp
next
  case (Cons g gs)
  from Cons.prems have "logs g \<noteq> []" by simp
  from mergeEndpointLogs_representative [OF this, of P] obtain d where
    d: "mergeEndpointLogs P g = Inr d" by blast
  let ?acc = "(fst acc @ [d], if group_isBffBlockApi g then snd acc + 1 else snd acc)"
  from Cons.prems have "\<forall>g\<in>set gs. logs g \<noteq> []" by simp
  from Cons.IH [OF this, of ?acc] obtain ds where
    ds: "mergeGroups P gs ?acc =
           Inr (fst ?acc @ ds, snd ?acc + length (filter group_isBffBlockApi gs))"
    and rel: "list_all2 (\<lambda>g d. mergeEndpointLogs P g = Inr d) gs ds"
    by blast
  have "mergeGroups P (g # gs) acc =
      Inr (fst acc @ (d # ds), snd acc + length (filter group_isBffBlockApi (g # gs)))"
    using d ds by simp
  moreover have "list_all2 (\<lambda>g d. mergeEndpointLogs P g = Inr d) (g # gs) (d # ds)"
    using d rel by simp
  ultimately show ?case by blast
qed

lemma processEach_eq:
  "processEach P ls acc =
     (fst acc @ map (processLogEntry P) ls,
      snd acc + length (filter (isBffBlockApiPattern P) ls))"
  by (induction ls arbitrary: acc) simp_all

lemma filterAndPrioritizeLogs_eq:
  "filterAndPrioritizeLogs P opts ls =
     (let ordered = (if prioritizeBffApis opts
                     then filter (isBffBlockApiPattern P) ls @
                          filter (\<lambda>l. \<not> isBffBlockApiPattern P l) ls
                     else ls)
      in if maxApis opts > 0 then take (nat (maxApis opts)) ordered else ordered)"
  by (simp add: filterAndPrioritizeLogs_def array_sort_bffComparator stable_partition_def
      slice0_def Let_def)

lemma filterAndPrioritizeLogs_off:
  "filterAndPrioritizeLogs P (opts\<lparr> prioritizeBffApis := False, maxApis := 0 \<rparr>) ls = ls"
  by (simp add: filterAndPrioritizeLogs_def)

lemma processBody_after_cap:
  "processBody P opts ls =
     processBody P (opts\<lparr> prioritizeBffApis := False, maxApis := 0 \<rparr>)
       (filterAndPrioritizeLogs P opts ls)"
  by (simp add: processBody_def filterAndPrioritizeLogs_off Let_def)

text \<open>
  C3.  \<^verbatim>\<open>filterAndPrioritizeLogs\<close> first, when \<open>prioritizeBffApis\<close> is set, puts
  every block-API exchange before every other exchange, each class in its original
  order; then, when \<open>maxApis > 0\<close>, keeps the first \<open>maxApis\<close> entries of that list
  (\<open>maxApis = 0\<close>: no cap).  Grouping and merging see only the list so prepared: the
  loop part of \<^verbatim>\<open>processNetworkLogs\<close> gives the same outcome as running it, without
  prioritisation and cap, on the prepared list.  The cap therefore bounds the working
  set, not the number of endpoints.
\<close>

theorem prioritize_then_truncate:
  "filterAndPrioritizeLogs P opts ls =
     (let ordered = (if prioritizeBffApis opts
                     then filter (isBffBlockApiPattern P) ls @
                          filter (\<lambda>l. \<not> isBffBlockApiPattern P l) ls
                     else ls)
      in if maxApis opts > 0 then take (nat (maxApis opts)) ordered else ordered)
   \<and> processBody P opts ls =
       processBody P (opts\<lparr> prioritizeBffApis := False, maxApis := 0 \<rparr>)
         (filterAndPrioritizeLogs P opts ls)"
  using filterAndPrioritizeLogs_eq [of P opts ls] processBody_after_cap [of P opts ls]
  by (rule conjI)

theorem prioritize_then_truncate_witness:
  "filterAndPrioritizeLogs plain_url (defaultOptions\<lparr> maxApis := 2 \<rparr>)
       [users_page, blocks_banner, orders_post, blocks_hero] = [blocks_banner, blocks_hero]
   \<and> length (processedData (processNetworkLogs plain_url (defaultOptions\<lparr> maxApis := 2 \<rparr>)
       [users_page, blocks_banner, orders_post, blocks_hero])) = 1"
proof -
  let ?ls = "[users_page, blocks_banner, orders_post, blocks_hero]"
  have b: "filter (isBffBlockApiPattern plain_url) ?ls = [blocks_banner, blocks_hero]"
    by code_simp
  have a: "filterAndPrioritizeLogs plain_url (defaultOptions\<lparr> maxApis := 2 \<rparr>) ?ls =
      [blocks_banner, blocks_hero]"
    using prioritize_then_truncate [of plain_url "defaultOptions\<lparr> maxApis := 2 \<rparr>" ?ls] b
    by (simp add: defaultOptions_def Let_def del: filter.simps)
  have c: "length (processedData (processNetworkLogs plain_url (defaultOptions\<lparr> maxApis := 2 \<rparr>)
       ?ls)) = 1"
    by code_simp
  from a c show ?thesis by simp
qed

lemma filterAndPrioritizeLogs_Nil: "filterAndPrioritizeLogs P opts [] = []"
  by (simp add: filterAndPrioritizeLogs_eq)

lemma processBody_merge:
  assumes "mergeDuplicates opts"
  shows "\<exists>ds. processBody P opts ls =
           Inr (ds, length (filter group_isBffBlockApi
                  (map snd (groupLogsByEndpoint P (filterAndPrioritizeLogs P opts ls))))) \<and>
         list_all2 (\<lambda>g d. mergeEndpointLogs P g = Inr d)
           (map snd (groupLogsByEndpoint P (filterAndPrioritizeLogs P opts ls))) ds"
proof -
  let ?gs = "map snd (groupLogsByEndpoint P (filterAndPrioritizeLogs P opts ls))"
  have "\<forall>g\<in>set ?gs. logs g \<noteq> []"
    using groups_nonempty by blast
  from mergeGroups_nonempty [OF this, of P "([], 0)"] obtain ds where
    "mergeGroups P ?gs ([], 0) = Inr (ds, length (filter group_isBffBlockApi ?gs))"
    and "list_all2 (\<lambda>g d. mergeEndpointLogs P g = Inr d) ?gs ds"
    by auto
  then show ?thesis using assms by (auto simp: processBody_def Let_def)
qed

lemma processBody_single:
  assumes "\<not> mergeDuplicates opts"
  shows "processBody P opts ls =
     Inr (map (processLogEntry P) (filterAndPrioritizeLogs P opts ls),
          length (filter (isBffBlockApiPattern P) (filterAndPrioritizeLogs P opts ls)))"
  using assms by (simp add: processBody_def processEach_eq Let_def)

lemma processBody_succeeds: "\<exists>ds n. processBody P opts ls = Inr (ds, n)"
proof (cases "mergeDuplicates opts")
  case True
  from processBody_merge [OF this] show ?thesis by blast
next
  case False
  from processBody_single [OF this] show ?thesis by blast
qed

lemma processNetworkLogs_Nil:
  "processNetworkLogs P opts [] =
     \<lparr> success = True, processedData = [], totalLogs = 0,
       bffApiCount = 0, uniqueEndpoints = 0, error = None \<rparr>"
  by (simp add: processNetworkLogs_def)

lemma processNetworkLogs_result:
  "\<exists>ds n. processBody P opts ls = Inr (ds, n) \<and>
     processNetworkLogs P opts ls =
       \<lparr> success = True, processedData = ds, totalLogs = length ls,
         bffApiCount = n, uniqueEndpoints = length ds, error = None \<rparr>"
proof -
  from processBody_succeeds [of P opts ls] obtain ds n where
    b: "processBody P opts ls = Inr (ds, n)" by blast
  show ?thesis
  proof (cases "ls = []")
    case True
    have "processBody P opts [] = Inr ([], 0)"
      by (simp add: processBody_def filterAndPrioritizeLogs_Nil groupLogsByEndpoint_def Let_def)
    with b True have "ds = []" "n = 0" by simp_all
    with True b show ?thesis by (simp add: processNetworkLogs_def)
  next
    case False
    with b show ?thesis by (simp add: processNetworkLogs_def finishProcessing_def)
  qed
qed

lemma mergeEndpointLogs_params:
  assumes "mergeEndpointLogs P g = Inr d"
  shows "queryParams d = extractQueryParams P (url d) \<and> pathParams d = []"
proof -
  have "logs g \<noteq> []"
    using assms by (auto simp: mergeEndpointLogs_def)
  from mergeEndpointLogs_representative [OF this, of P] assms show ?thesis
    by auto
qed

lemma processLogEntry_params:
  "queryParams (processLogEntry P l) = extractQueryParams P (url (processLogEntry P l)) \<and>
   pathParams (processLogEntry P l) = []"
  by (simp add: processLogEntry_def extractPathParams_def)

lemma processedData_params:
  assumes "d \<in> set (processedData (processNetworkLogs P opts ls))"
  shows "queryParams d = extractQueryParams P (url d) \<and> pathParams d = []"
proof -
  from processNetworkLogs_result [of P opts ls] obtain ds n where
    b: "processBody P opts ls = Inr (ds, n)"
    and r: "processedData (processNetworkLogs P opts ls) = ds"
    by auto
  show ?thesis
  proof (cases "mergeDuplicates opts")
    case True
    from processBody_merge [OF this, of P ls] b
    have rel: "list_all2 (\<lambda>g d. mergeEndpointLogs P g = Inr d)
           (map snd (groupLogsByEndpoint P (filterAndPrioritizeLogs P opts ls))) ds"
      by auto
    from assms r have "d \<in> set ds" by simp
    with rel obtain g where "mergeEndpointLogs P g = Inr d"
      by (auto simp: list_all2_conv_all_nth in_set_conv_nth)
    then show ?thesis by (rule mergeEndpointLogs_params)
  next
    case False
    from processBody_single [OF this, of P ls] b
    have "ds = map (processLogEntry P) (filterAndPrioritizeLogs P opts ls)" by simp
    with assms r show ?thesis by (auto simp: processLogEntry_params)
  qed
qed

lemma extractQueryParams_unparsable: "P u = None \<Longrightarrow> extractQueryParams P u = []"
  by (simp add: extractQueryParams_def)

section \<open>The normalizer's result\<close>

text \<open>
  C7.  For every options value the empty exchange list yields the empty successful
  result.  For every exchange list the result is successful and carries no error (no
  group produced by the grouping loop is empty, so the only \<^verbatim>\<open>throw\<close> of the
  normalizer is never reached).  An emitted endpoint whose URL fails to parse has the
  empty mapping as \<open>queryParams\<close>.
\<close>

theorem normalize_never_fails:
  "processNetworkLogs P opts [] =
     \<lparr> success = True, processedData = [], totalLogs = 0,
       bffApiCount = 0, uniqueEndpoints = 0, error = None \<rparr>
   \<and> success (processNetworkLogs P opts ls)
   \<and> error (processNetworkLogs P opts ls) = None
   \<and> (\<forall>d\<in>set (processedData (processNetworkLogs P opts ls)).
         P (url d) = None \<longrightarrow> queryParams d = [])"
proof -
  from processNetworkLogs_result [of P opts ls]
  have s: "success (processNetworkLogs P opts ls)"
    and e: "error (processNetworkLogs P opts ls) = None"
    by auto
  have q: "\<forall>d\<in>set (processedData (processNetworkLogs P opts ls)).
         P (url d) = None \<longrightarrow> queryParams d = []"
    using processedData_params [of _ P opts ls] extractQueryParams_unparsable [of P]
    by metis
  from processNetworkLogs_Nil [of P opts] s e q show ?thesis by blast
qed

theorem normalize_never_fails_witness:
  "processNetworkLogs plain_url (defaultOptions\<lparr> maxApis := 0 \<rparr>) [] =
     \<lparr> success = True, processedData = [], totalLogs = 0,
       bffApiCount = 0, uniqueEndpoints = 0, error = None \<rparr>
   \<and> success (processNetworkLogs plain_url defaultOptions [unparsable])
   \<and> plain_url ''not-a-valid-url'' = None
   \<and> map url (processedData (processNetworkLogs plain_url defaultOptions [unparsable]))
        = [''not-a-valid-url'']
   \<and> map queryParams (processedData (processNetworkLogs plain_url defaultOptions [unparsable]))
        = [[]]"
proof -
  have a: "processNetworkLogs plain_url (defaultOptions\<lparr> maxApis := 0 \<rparr>) [] =
     \<lparr> success = True, processedData = [], totalLogs = 0,
       bffApiCount = 0, uniqueEndpoints = 0, error = None \<rparr>"
    using normalize_never_fails [of plain_url "defaultOptions\<lparr> maxApis := 0 \<rparr>" "[]"] by blast
  note t = normalize_never_fails [of plain_url defaultOptions "[unparsable]"]
  from t have b: "success (processNetworkLogs plain_url defaultOptions [unparsable])"
    by blast
  have u: "map url (processedData (processNetworkLogs plain_url defaultOptions [unparsable]))
        = [''not-a-valid-url'']"
    by code_simp
  then obtain d where d: "processedData (processNetworkLogs plain_url defaultOptions [unparsable]) = [d]"
    and ud: "url d = ''not-a-valid-url''"
    by auto
  from t d have "plain_url (url d) = None \<longrightarrow> queryParams d = []"
    by simp
  with ud have "queryParams d = []"
    by (simp add: plain_url_invalid)
  with d have q: "map queryParams (processedData (processNetworkLogs plain_url defaultOptions [unparsable]))
        = [[]]"
    by simp
  from a b plain_url_invalid u q show ?thesis by blast
qed

lemma finishProcessing_counts:
  "uniqueEndpoints (finishProcessing ls outcome) = length (processedData (finishProcessing ls outcome))
   \<and> totalLogs (finishProcessing ls outcome) = length ls"
  by (simp add: finishProcessing_def split: sum.splits prod.splits)

lemma finishProcessing_failure:
  "finishProcessing ls (Inl e) =
     \<lparr> success = False, processedData = [], totalLogs = length ls,
       bffApiCount = 0, uniqueEndpoints = 0, error = Some (errorMessageOf e) \<rparr>"
  by (simp add: finishProcessing_def)

lemma finishProcessing_unsuccessful:
  "\<not> success (finishProcessing ls outcome) \<longrightarrow>
     processedData (finishProcessing ls outcome) = [] \<and>
     bffApiCount (finishProcessing ls outcome) = 0 \<and>
     uniqueEndpoints (finishProcessing ls outcome) = 0"
  by (simp add: finishProcessing_def split: sum.splits prod.splits)

text \<open>
  C10.  In every result of \<^verbatim>\<open>processNetworkLogs\<close>, \<open>uniqueEndpoints\<close> is the
  length of \<open>processedData\<close> and \<open>totalLogs\<close> the length of the input.  The same holds
  on both ways out of the \<^verbatim>\<open>try\<close> block (\<open>finishProcessing\<close>), and on the
  \<^verbatim>\<open>catch\<close> path \<open>success\<close> is false, \<open>processedData\<close> is empty and
  \<open>bffApiCount\<close> and \<open>uniqueEndpoints\<close> are zero.
\<close>

theorem result_counts:
  "uniqueEndpoints (processNetworkLogs P opts ls) =
     length (processedData (processNetworkLogs P opts ls))
   \<and> totalLogs (processNetworkLogs P opts ls) = length ls
   \<and> uniqueEndpoints (finishProcessing ls outcome) =
       length (processedData (finishProcessing ls outcome))
   \<and> totalLogs (finishProcessing ls outcome) = length ls
   \<and> (\<not> success (finishProcessing ls outcome) \<longrightarrow>
        processedData (finishProcessing ls outcome) = [] \<and>
        bffApiCount (finishProcessing ls outcome) = 0 \<and>
        uniqueEndpoints (finishProcessing ls outcome) = 0)
   \<and> finishProcessing ls (Inl e) =
       \<lparr> success = False, processedData = [], totalLogs = length ls,
         bffApiCount = 0, uniqueEndpoints = 0, error = Some (errorMessageOf e) \<rparr>"
proof -
  from processNetworkLogs_result [of P opts ls]
  have "uniqueEndpoints (processNetworkLogs P opts ls) =
          length (processedData (processNetworkLogs P opts ls))"
    and "totalLogs (processNetworkLogs P opts ls) = length ls"
    by auto
  with finishProcessing_counts [of ls outcome] finishProcessing_unsuccessful [of ls outcome]
    finishProcessing_failure [of ls e]
  show ?thesis by blast
qed

theorem result_counts_witness:
  "\<not> success (finishProcessing [users_page] (mergeGroups plain_url [empty_group] ([], 0)))
   \<and> processedData (finishProcessing [users_page] (mergeGroups plain_url [empty_group] ([], 0))) = []
   \<and> bffApiCount (finishProcessing [users_page] (mergeGroups plain_url [empty_group] ([], 0))) = 0
   \<and> uniqueEndpoints (finishProcessing [users_page] (mergeGroups plain_url [empty_group] ([], 0))) = 0
   \<and> totalLogs (finishProcessing [users_page] (mergeGroups plain_url [empty_group] ([], 0))) = 1
   \<and> error (finishProcessing [users_page] (mergeGroups plain_url [empty_group] ([], 0)))
        = Some ''[object Object]''
   \<and> uniqueEndpoints (processNetworkLogs plain_url defaultOptions [users_page]) = 1"
proof -
  let ?out = "mergeGroups plain_url [empty_group] ([], 0)"
  have f: "\<not> success (finishProcessing [users_page] ?out)"
    by (simp add: empty_group_def mergeEndpointLogs_def finishProcessing_def)
  have e: "error (finishProcessing [users_page] ?out) = Some ''[object Object]''"
    by (simp add: empty_group_def mergeEndpointLogs_def finishProcessing_def)
  have n: "length (processedData (processNetworkLogs plain_url defaultOptions [users_page])) = 1"
    by code_simp
  note t = result_counts [of plain_url defaultOptions "[users_page]" ?out]
  from t f have "processedData (finishProcessing [users_page] ?out) = []"
    and "bffApiCount (finishProcessing [users_page] ?out) = 0"
    and "uniqueEndpoints (finishProcessing [users_page] ?out) = 0"
    and "totalLogs (finishProcessing [users_page] ?out) = 1"
    by simp_all
  moreover from t n
  have "uniqueEndpoints (processNetworkLogs plain_url defaultOptions [users_page]) = 1"
    by simp
  ultimately show ?thesis using f e by blast
qed




section \<open>Block-API classification of groups\<close>








text \<open>The specification's end-to-end scenario: the two block exchanges share one
  identity and merge into one endpoint, which takes the second, longer body.\<close>

lemma end_to_end_scenario:
  "processNetworkLogs plain_url defaultOptions [blocks_banner, blocks_hero] =
     \<lparr> success = True,
       processedData =
         [\<lparr> method' = ''GET'', url = ''https://api.example.com/v1/blocks?keys=home.hero'',
            responseBody = ''{a:1,b:2}'', queryParams = [(''keys'', ''home.hero'')],
            pathParams = [] \<rparr>],
       totalLogs = 2, bffApiCount = 1, uniqueEndpoints = 1, error = None \<rparr>"
  by code_simp

section \<open>Endpoint identity\<close>

lemma toUpperCase_lowercase_free: "lowercase_free m \<Longrightarrow> toUpperCase m = m"
  by (induction m) (auto simp: lowercase_free_def toUpperCase_def toUpperCase_char_def Let_def)

lemma toUpperCase_char_space: "toUpperCase_char c = CHR '' '' \<longleftrightarrow> c = CHR '' ''"
proof
  assume h: "toUpperCase_char c = CHR '' ''"
  show "c = CHR '' ''"
  proof (cases "97 \<le> (of_char c :: nat) \<and> (of_char c :: nat) \<le> 122")
    case True
    with h have "char_of (of_char c - (32::nat)) = CHR '' ''"
      by (simp add: toUpperCase_char_def Let_def)
    then have "(of_char (char_of (of_char c - (32::nat)) :: char) :: nat) = of_char CHR '' ''"
      by simp
    then have "(of_char c - (32::nat)) mod 256 = 32"
      by (simp add: of_char_of)
    moreover from True have "(of_char c - (32::nat)) mod 256 = of_char c - (32::nat)"
      by (intro mod_less) linarith
    ultimately have "of_char c - (32::nat) = 32" by simp
    with True have False by linarith
    then show ?thesis ..
  next
    case False
    with h show ?thesis by (simp add: toUpperCase_char_def Let_def)
  qed
next
  assume "c = CHR '' ''"
  then show "toUpperCase_char c = CHR '' ''"
    by (simp add: toUpperCase_char_def)
qed

lemma toUpperCase_no_space: "CHR '' '' \<notin> set m \<Longrightarrow> CHR '' '' \<notin> set (toUpperCase m)"
proof
  assume "CHR '' '' \<notin> set m" and "CHR '' '' \<in> set (toUpperCase m)"
  then obtain c where "c \<in> set m" and "toUpperCase_char c = CHR '' ''"
    by (auto simp: toUpperCase_def)
  with \<open>CHR '' '' \<notin> set m\<close> show False
    by (simp add: toUpperCase_char_space)
qed

lemma split_at_first:
  assumes "c \<notin> set a" "c \<notin> set b" "a @ c # r = b @ c # s"
  shows "a = b \<and> r = s"
proof -
  have "takeWhile (\<lambda>x. x \<noteq> c) (a @ c # r) = a"
    using assms(1) by (auto simp: takeWhile_tail takeWhile_eq_all_conv)
  moreover have "takeWhile (\<lambda>x. x \<noteq> c) (b @ c # s) = b"
    using assms(2) by (auto simp: takeWhile_tail takeWhile_eq_all_conv)
  ultimately have "a = b" using assms(3) by simp
  with assms(3) show ?thesis by simp
qed

lemma key_injective:
  assumes "CHR '' '' \<notin> set m1" "CHR '' '' \<notin> set m2"
    and "CHR ''/'' \<notin> set h1" "CHR ''/'' \<notin> set h2"
    and "m1 @ '' '' @ h1 @ CHR ''/'' # p1 = m2 @ '' '' @ h2 @ CHR ''/'' # p2"
  shows "m1 = m2 \<and> h1 = h2 \<and> p1 = p2"
proof -
  from assms(5) have "m1 @ CHR '' '' # (h1 @ CHR ''/'' # p1) = m2 @ CHR '' '' # (h2 @ CHR ''/'' # p2)"
    by simp
  from split_at_first [OF assms(1) assms(2) this]
  have m: "m1 = m2" and rest: "h1 @ CHR ''/'' # p1 = h2 @ CHR ''/'' # p2" by simp_all
  from split_at_first [OF assms(3) assms(4) rest] m show ?thesis by simp
qed

lemma createEndpointKey_parsed:
  "P (req_url (request e)) = Some urlObj \<Longrightarrow>
   createEndpointKey P e =
     toUpperCase (req_method (request e)) @ '' '' @ hostname urlObj @ pathname urlObj"
  by (simp add: createEndpointKey_def)

lemma createEndpointKey_fallback:
  "P (req_url (request e)) = None \<Longrightarrow>
   createEndpointKey P e = req_method (request e) @ '' '' @ req_url (request e)"
  by (simp add: createEndpointKey_def)

lemma createEndpointKey_pure:
  "req_method (request a) = req_method (request b) \<Longrightarrow>
   req_url (request a) = req_url (request b) \<Longrightarrow>
   createEndpointKey P a = createEndpointKey P b"
  by (simp add: createEndpointKey_def split: option.splits)

lemma createEndpointKey_triple:
  assumes "P (req_url (request a)) = Some ua" "P (req_url (request b)) = Some ub"
    and "CHR '' '' \<notin> set (req_method (request a))" "CHR '' '' \<notin> set (req_method (request b))"
    and "CHR ''/'' \<notin> set (hostname ua)" "CHR ''/'' \<notin> set (hostname ub)"
    and "prefix ''/'' (pathname ua)" "prefix ''/'' (pathname ub)"
  shows "createEndpointKey P a = createEndpointKey P b \<longleftrightarrow>
           toUpperCase (req_method (request a)) = toUpperCase (req_method (request b)) \<and>
           hostname ua = hostname ub \<and> pathname ua = pathname ub"
proof
  assume eq: "createEndpointKey P a = createEndpointKey P b"
  from assms(7,8) obtain pa pb where
    p: "pathname ua = CHR ''/'' # pa" "pathname ub = CHR ''/'' # pb"
    by (auto simp: prefix_def)
  from eq have "toUpperCase (req_method (request a)) @ '' '' @ hostname ua @ CHR ''/'' # pa =
      toUpperCase (req_method (request b)) @ '' '' @ hostname ub @ CHR ''/'' # pb"
    using assms(1,2) by (simp add: createEndpointKey_def p)
  from key_injective [OF toUpperCase_no_space [OF assms(3)] toUpperCase_no_space [OF assms(4)]
      assms(5) assms(6) this] p
  show "toUpperCase (req_method (request a)) = toUpperCase (req_method (request b)) \<and>
           hostname ua = hostname ub \<and> pathname ua = pathname ub"
    by simp
next
  assume "toUpperCase (req_method (request a)) = toUpperCase (req_method (request b)) \<and>
           hostname ua = hostname ub \<and> pathname ua = pathname ub"
  then show "createEndpointKey P a = createEndpointKey P b"
    using assms(1,2) by (simp add: createEndpointKey_def)
qed

lemma groups_with_itself:
  assumes "e \<in> set ls"
  shows "\<exists>g. (createEndpointKey P e, g) \<in> set (groupLogsByEndpoint P ls) \<and> e \<in> set (logs g)"
proof -
  let ?k = "createEndpointKey P e"
  from assms have "?k \<in> set (first_seen (map (createEndpointKey P) ls))" by simp
  then have "(?k, group_of P ls ?k) \<in> set (groupLogsByEndpoint P ls)"
    by (auto simp: groupLogsByEndpoint_partition partition_by_identity_def)
  moreover have "e \<in> set (logs (group_of P ls ?k))"
    using assms by (simp add: group_of_def)
  ultimately show ?thesis by blast
qed

text \<open>
  C6.  The grouping key is a function of the exchange's method and URL only.  When the
  URL parses it is the method in upper case (the method itself when, as in the data
  model, it has no lower-case letter), a space, the hostname and the pathname; the
  query string and the fragment take no part, and for well-formed parts (no space in
  the methods, no slash in the hostnames, pathnames starting with a slash) two keys are
  equal iff the (upper-cased method, hostname, pathname) triples are.  When the URL
  fails to parse it is the literal method, a space and the literal URL.  Every exchange
  of a list is a member of the group filed under its own key.
\<close>

theorem endpoint_identity:
  "(\<forall>urlObj. P (req_url (request e)) = Some urlObj \<longrightarrow>
       createEndpointKey P e =
         toUpperCase (req_method (request e)) @ '' '' @ hostname urlObj @ pathname urlObj
       \<and> (lowercase_free (req_method (request e)) \<longrightarrow>
            createEndpointKey P e =
              req_method (request e) @ '' '' @ hostname urlObj @ pathname urlObj))
   \<and> (P (req_url (request e)) = None \<longrightarrow>
        createEndpointKey P e = req_method (request e) @ '' '' @ req_url (request e))
   \<and> (req_method (request e) = req_method (request e') \<and>
      req_url (request e) = req_url (request e') \<longrightarrow>
        createEndpointKey P e = createEndpointKey P e')
   \<and> (\<forall>u u'. P (req_url (request e)) = Some u \<and> P (req_url (request e')) = Some u' \<and>
        CHR '' '' \<notin> set (req_method (request e)) \<and> CHR '' '' \<notin> set (req_method (request e')) \<and>
        CHR ''/'' \<notin> set (hostname u) \<and> CHR ''/'' \<notin> set (hostname u') \<and>
        prefix ''/'' (pathname u) \<and> prefix ''/'' (pathname u') \<longrightarrow>
        (createEndpointKey P e = createEndpointKey P e' \<longleftrightarrow>
           toUpperCase (req_method (request e)) = toUpperCase (req_method (request e')) \<and>
           hostname u = hostname u' \<and> pathname u = pathname u'))
   \<and> (e \<in> set ls \<longrightarrow>
        (\<exists>g. (createEndpointKey P e, g) \<in> set (groupLogsByEndpoint P ls) \<and> e \<in> set (logs g)))"
proof -
  have a: "\<forall>urlObj. P (req_url (request e)) = Some urlObj \<longrightarrow>
       createEndpointKey P e =
         toUpperCase (req_method (request e)) @ '' '' @ hostname urlObj @ pathname urlObj
       \<and> (lowercase_free (req_method (request e)) \<longrightarrow>
            createEndpointKey P e =
              req_method (request e) @ '' '' @ hostname urlObj @ pathname urlObj)"
    by (simp add: createEndpointKey_def toUpperCase_lowercase_free)
  have b: "P (req_url (request e)) = None \<longrightarrow>
        createEndpointKey P e = req_method (request e) @ '' '' @ req_url (request e)"
    by (simp add: createEndpointKey_def)
  have c: "req_method (request e) = req_method (request e') \<and>
      req_url (request e) = req_url (request e') \<longrightarrow>
        createEndpointKey P e = createEndpointKey P e'"
    using createEndpointKey_pure [of e e' P] by blast
  have d: "\<forall>u u'. P (req_url (request e)) = Some u \<and> P (req_url (request e')) = Some u' \<and>
        CHR '' '' \<notin> set (req_method (request e)) \<and> CHR '' '' \<notin> set (req_method (request e')) \<and>
        CHR ''/'' \<notin> set (hostname u) \<and> CHR ''/'' \<notin> set (hostname u') \<and>
        prefix ''/'' (pathname u) \<and> prefix ''/'' (pathname u') \<longrightarrow>
        (createEndpointKey P e = createEndpointKey P e' \<longleftrightarrow>
           toUpperCase (req_method (request e)) = toUpperCase (req_method (request e')) \<and>
           hostname u = hostname u' \<and> pathname u = pathname u')"
  proof (intro allI impI, elim conjE)
    fix u u'
    assume "P (req_url (request e)) = Some u" "P (req_url (request e')) = Some u'"
      "CHR '' '' \<notin> set (req_method (request e))" "CHR '' '' \<notin> set (req_method (request e'))"
      "CHR ''/'' \<notin> set (hostname u)" "CHR ''/'' \<notin> set (hostname u')"
      "prefix ''/'' (pathname u)" "prefix ''/'' (pathname u')"
    then show "createEndpointKey P e = createEndpointKey P e' \<longleftrightarrow>
           toUpperCase (req_method (request e)) = toUpperCase (req_method (request e')) \<and>
           hostname u = hostname u' \<and> pathname u = pathname u'"
      by (rule createEndpointKey_triple)
  qed
  have f: "e \<in> set ls \<longrightarrow>
        (\<exists>g. (createEndpointKey P e, g) \<in> set (groupLogsByEndpoint P ls) \<and> e \<in> set (logs g))"
    using groups_with_itself [of e ls P] by blast
  show ?thesis
    by (rule conjI [OF a conjI [OF b conjI [OF c conjI [OF d f]]]])
qed

theorem endpoint_identity_witness:
  "createEndpointKey plain_url blocks_banner = ''GET api.example.com/v1/blocks''
   \<and> createEndpointKey plain_url blocks_banner = createEndpointKey plain_url blocks_hero
   \<and> createEndpointKey plain_url unparsable = ''GET not-a-valid-url''
   \<and> (\<exists>g. (''GET not-a-valid-url'', g) \<in> set (groupLogsByEndpoint plain_url [blocks_banner, unparsable])
          \<and> unparsable \<in> set (logs g))"
proof -
  let ?u = "\<lparr> hostname = ''api.example.com'', pathname = ''/v1/blocks'',
            searchParams = [(''keys'', ''home.banner'')] \<rparr>"
  let ?u' = "\<lparr> hostname = ''api.example.com'', pathname = ''/v1/blocks'',
            searchParams = [(''keys'', ''home.hero'')] \<rparr>"
  have pb: "plain_url (req_url (request blocks_banner)) = Some ?u"
    by (simp add: blocks_banner_def exchange_def plain_url_blocks_banner)
  have ph: "plain_url (req_url (request blocks_hero)) = Some ?u'"
    by (simp add: blocks_hero_def exchange_def plain_url_blocks_hero)
  have pu: "plain_url (req_url (request unparsable)) = None"
    by (simp add: unparsable_def exchange_def plain_url_invalid)
  have lf: "lowercase_free (req_method (request blocks_banner))"
    by (simp add: blocks_banner_def exchange_def lowercase_free_def)
  note t = endpoint_identity [of plain_url blocks_banner blocks_hero "[blocks_banner, unparsable]"]
  from t pb lf have k1: "createEndpointKey plain_url blocks_banner =
      req_method (request blocks_banner) @ '' '' @ hostname ?u @ pathname ?u"
    by blast
  then have a: "createEndpointKey plain_url blocks_banner = ''GET api.example.com/v1/blocks''"
    by (simp add: blocks_banner_def exchange_def)
  have up: "toUpperCase ''GET'' = ''GET''" by code_simp
  have sp: "CHR '' '' \<notin> set (req_method (request blocks_banner))"
      "CHR '' '' \<notin> set (req_method (request blocks_hero))"
    by (simp_all add: blocks_banner_def blocks_hero_def exchange_def)
  have wf: "CHR ''/'' \<notin> set (hostname ?u)" "CHR ''/'' \<notin> set (hostname ?u')"
      "prefix ''/'' (pathname ?u)" "prefix ''/'' (pathname ?u')"
    by simp_all
  note t4 = t [THEN conjunct2, THEN conjunct2, THEN conjunct2, THEN conjunct1, rule_format,
      of ?u ?u']
  from pb ph sp wf have "createEndpointKey plain_url blocks_banner =
      createEndpointKey plain_url blocks_hero \<longleftrightarrow>
        toUpperCase (req_method (request blocks_banner)) =
          toUpperCase (req_method (request blocks_hero)) \<and>
        hostname ?u = hostname ?u' \<and> pathname ?u = pathname ?u'"
    by (intro t4) blast
  moreover have "toUpperCase (req_method (request blocks_banner)) =
          toUpperCase (req_method (request blocks_hero)) \<and>
        hostname ?u = hostname ?u' \<and> pathname ?u = pathname ?u'"
    by (simp add: blocks_banner_def blocks_hero_def exchange_def)
  ultimately have b: "createEndpointKey plain_url blocks_banner =
      createEndpointKey plain_url blocks_hero"
    by blast
  note t' = endpoint_identity [of plain_url unparsable unparsable "[blocks_banner, unparsable]"]
  from t' pu have "createEndpointKey plain_url unparsable =
      req_method (request unparsable) @ '' '' @ req_url (request unparsable)"
    by blast
  then have c: "createEndpointKey plain_url unparsable = ''GET not-a-valid-url''"
    by (simp add: unparsable_def exchange_def)
  from t' have "\<exists>g. (createEndpointKey plain_url unparsable, g)
        \<in> set (groupLogsByEndpoint plain_url [blocks_banner, unparsable]) \<and> unparsable \<in> set (logs g)"
    by simp
  with c have d: "\<exists>g. (''GET not-a-valid-url'', g)
        \<in> set (groupLogsByEndpoint plain_url [blocks_banner, unparsable]) \<and> unparsable \<in> set (logs g)"
    by simp
  from a b c d show ?thesis by blast
qed

section \<open>Capture session\<close>






















section \<open>Serializer\<close>

text \<open>Whenever \<^verbatim>\<open>serializeForAI\<close> returns, it returns an array with one object per
  element, whose properties are among method, url, responseBody, queryParams and
  pathParams, in this order (a property whose value is \<^verbatim>\<open>undefined\<close> is left out).\<close>

lemma serializeJSONObject_keys:
  "serializeJSONObject h stack props = Inr ps \<Longrightarrow> subseq (map fst ps) (map fst props)"
proof (induction props arbitrary: ps)
  case Nil
  then show ?case by simp
next
  case (Cons kv props)
  then show ?case
    by (auto split: sum.splits option.splits)
qed

lemma read_fields_names:
  "read_fields h api names = Inr fs \<Longrightarrow> map fst fs = names"
  by (induction names arbitrary: fs) (auto split: sum.splits)

lemma aiData_names:
  "aiData h vs = Inr entries \<Longrightarrow>
   length entries = length vs \<and>
   (\<forall>entry\<in>set entries.
      map fst entry = [''method'', ''url'', ''responseBody'', ''queryParams'', ''pathParams''])"
proof (induction vs arbitrary: entries)
  case Nil
  then show ?case by simp
next
  case (Cons v vs)
  then show ?case
    by (auto simp: aiData_entry_def split: sum.splits dest: read_fields_names)
qed

lemma stringify_entries_keys:
  "stringify_entries h entries = Inr js \<Longrightarrow>
   \<exists>objs. js = map JObjectLit objs \<and> list_all2 (\<lambda>ps entry. subseq (map fst ps) (map fst entry)) objs entries"
proof (induction entries arbitrary: js)
  case Nil
  then show ?case by simp
next
  case (Cons entry entries)
  from Cons.prems obtain ps js' where
    ps: "serializeJSONObject h [] entry = Inr ps"
    and js': "stringify_entries h entries = Inr js'"
    and js: "js = JObjectLit ps # js'"
    by (auto split: sum.splits)
  from Cons.IH [OF js'] obtain objs where
    "js' = map JObjectLit objs"
    "list_all2 (\<lambda>ps entry. subseq (map fst ps) (map fst entry)) objs entries"
    by blast
  with js serializeJSONObject_keys [OF ps]
  have "js = map JObjectLit (ps # objs) \<and>
      list_all2 (\<lambda>ps entry. subseq (map fst ps) (map fst entry)) (ps # objs) (entry # entries)"
    by simp
  then show ?case by blast
qed

lemma serializeForAI_field_order:
  assumes "serializeForAI h vs = Inr j"
  shows "\<exists>objs. j = JArrayLit (map JObjectLit objs) \<and> length objs = length vs \<and>
           (\<forall>ps\<in>set objs. subseq (map fst ps)
              [''method'', ''url'', ''responseBody'', ''queryParams'', ''pathParams''])"
proof -
  from assms obtain entries js where
    e: "aiData h vs = Inr entries" and s: "stringify_entries h entries = Inr js"
    and j: "j = JArrayLit js"
    by (auto simp: serializeForAI_def split: sum.splits)
  from stringify_entries_keys [OF s] obtain objs where
    o: "js = map JObjectLit objs"
    and rel: "list_all2 (\<lambda>ps entry. subseq (map fst ps) (map fst entry)) objs entries"
    by blast
  from aiData_names [OF e] have len: "length entries = length vs"
    and names: "\<forall>entry\<in>set entries.
      map fst entry = [''method'', ''url'', ''responseBody'', ''queryParams'', ''pathParams'']"
    by simp_all
  have "\<forall>ps\<in>set objs. subseq (map fst ps)
              [''method'', ''url'', ''responseBody'', ''queryParams'', ''pathParams'']"
  proof
    fix ps assume "ps \<in> set objs"
    then obtain i where i: "i < length objs" "objs ! i = ps"
      by (auto simp: in_set_conv_nth)
    with rel have "subseq (map fst ps) (map fst (entries ! i))" and "i < length entries"
      by (auto simp: list_all2_conv_all_nth)
    with names show "subseq (map fst ps)
              [''method'', ''url'', ''responseBody'', ''queryParams'', ''pathParams'']"
      by (metis nth_mem)
  qed
  moreover from rel have "length objs = length entries"
    by (rule list_all2_lengthD)
  ultimately show ?thesis using j o len by auto
qed

lemma circular_self: "get_property circular_heap (JSObject 0) ''self'' = Inr (JSObject 0)"
  by code_simp

lemma circular_serialized:
  "serializeForAI circular_heap [JSObject 0] =
     Inr (JArrayLit [JObjectLit [(''method'', JString ''GET''), (''url'', JString ''test'')]])"
  by code_simp

lemma circular_params_raise:
  "serializeForAI circular_params_heap [JSObject 0] =
     Inl (ThrownAppError
            \<lparr> category = VALIDATION, code = ''SERIALIZATION_ERROR'',
              message = ''Failed to serialize processed data for AI consumption'',
              details = Some ''Converting circular structure to JSON'' \<rparr>)"
  by code_simp

text \<open>
  C8 at the input of the repository's own serialization test, an endpoint whose
  property \<open>self\<close> refers to the endpoint itself: the test expects an exception, but the
  \<^verbatim>\<open>map\<close> callback copies only the five named properties, the cycle is not among
  them, and \<^verbatim>\<open>serializeForAI\<close> returns normally with the text of
  \<^verbatim>\<open>[{"method": "GET", "url": "test"}]\<close>.  A cycle that can be reached through one of
  the five properties does raise \<^verbatim>\<open>SERIALIZATION_ERROR\<close>.
\<close>

theorem serializeForAI_circular_endpoint:
  "get_property circular_heap (JSObject 0) ''self'' = Inr (JSObject 0)
   \<and> serializeForAI circular_heap [JSObject 0] =
       Inr (JArrayLit [JObjectLit [(''method'', JString ''GET''), (''url'', JString ''test'')]])
   \<and> serializeForAI circular_params_heap [JSObject 0] =
       Inl (ThrownAppError
              \<lparr> category = VALIDATION, code = ''SERIALIZATION_ERROR'',
                message = ''Failed to serialize processed data for AI consumption'',
                details = Some ''Converting circular structure to JSON'' \<rparr>)"
  using circular_self circular_serialized circular_params_raise by simp

end
